theory Spec2Isabelle
  imports Main "HOL-Library.Word"
begin

unbundle bit_operations_syntax

section \<open>The allocation tracker of memdebug.h\<close>

text \<open>
  The repository holds two implementations of the same tracker. The hash map
  (\<^verbatim>\<open>src/unnamed/part_000\<close>) keeps the live records in a static array of
  \<^verbatim>\<open>MAP_BUF_SIZE\<close> buckets with overflow chains; its functions keep their source
  names here. The growable array (\<^verbatim>\<open>src/memdebug.h\<close>) keeps them in one
  heap array; its functions carry the suffix \<open>_arr\<close>.

  Conventions of the embedding, for an LP64 platform:
  \<^item> \<^verbatim>\<open>void*\<close>, \<^verbatim>\<open>uintptr_t\<close> and \<^verbatim>\<open>size_t\<close> are 64-bit words; \<^verbatim>\<open>NULL\<close> is \<open>0\<close>;
    arithmetic on them wraps around as in C.
  \<^item> The real \<^verbatim>\<open>malloc\<close>, \<^verbatim>\<open>realloc\<close> and \<^verbatim>\<open>free\<close> are outside the program: the
    pointer a call returns is an argument of the model function that makes the
    call. The hash map also keeps every such call in its field \<open>libc_calls\<close>.
  \<^item> A function that ends the process, blocks for ever or stores through an
    invalid pointer returns \<open>Inl\<close> of a \<open>fault\<close>; a function that returns
    normally gives \<open>Inr\<close> of the new state (and its result).
  \<^item> \<^verbatim>\<open>alloc_mutex\<close> is a plain, non-recursive lock
    (\<^verbatim>\<open>PTHREAD_MUTEX_INITIALIZER\<close>, \<^verbatim>\<open>SRWLOCK_INIT\<close>): the field of that name says
    whether the running thread holds it, and \<open>mutex_lock\<close> on a lock that is
    held never returns.
  \<^item> What \<^verbatim>\<open>printf\<close> writes before \<^verbatim>\<open>exit\<close> is kept, as structured data, in the
    \<open>Exit\<close> fault. The per-call log lines under \<^verbatim>\<open>PRINT_MEMALLOCS\<close> touch no
    state and are left out.
\<close>

type_synonym ptr = "64 word"
type_synonym size_t = "64 word"

datatype libc_call = Malloc size_t ptr | Realloc ptr size_t ptr | Free ptr

subsection \<open>Hash map: data (part\_000, lines 83--123)\<close>

record MemAlloc =
  ptr :: ptr
  size_bytes :: size_t
  line :: size_t
  func :: string
  file_name :: string

text \<open>
  \<^verbatim>\<open>struct MapMember { MemAlloc alloc; MapMember* next; }\<close>. The chain hanging off
  \<^verbatim>\<open>next\<close> is a null-terminated singly linked list of heap nodes, each owned by
  its predecessor: it is the list of its nodes, every node being the address
  \<^verbatim>\<open>malloc\<close> gave for it together with the \<^verbatim>\<open>alloc\<close> it stores. \<open>[]\<close> is
  \<^verbatim>\<open>next == NULL\<close>.
\<close>

type_synonym chain = "(ptr \<times> MemAlloc) list"

record MapMember =
  alloc :: MemAlloc
  nextp :: chain

datatype printed =
    PanicMessage string ptr size_t string string
  | OomMessage size_t string string size_t
  | HeapDump "MemAlloc list" size_t size_t

datatype fault = Exit nat "printed list" | Deadlock | NullStore

record memdebug =
  allocs :: "nat \<Rightarrow> MapMember"
  memallocs_initialized :: bool
  num_allocs :: size_t
  alloc_mutex :: bool
  libc_calls :: "libc_call list"

definition MAP_BUF_SIZE :: nat where
  "MAP_BUF_SIZE = 100000"

definition MEMPANIC_EXIT_STATUS :: nat where
  "MEMPANIC_EXIT_STATUS = 10"

definition OOM_EXIT_STATUS :: nat where
  "OOM_EXIT_STATUS = 11"

definition sizeof_voidp :: nat where
  "sizeof_voidp = 8"

definition sizeof_MapMember :: size_t where
  "sizeof_MapMember = 48"

text \<open>Static storage is zero-initialised: the state before the first call.\<close>

definition zero_alloc :: MemAlloc where
  "zero_alloc = \<lparr>ptr = 0, size_bytes = 0, line = 0, func = [], file_name = []\<rparr>"

definition init_state :: memdebug where
  "init_state = \<lparr>allocs = (\<lambda>i. \<lparr>alloc = zero_alloc, nextp = []\<rparr>),
     memallocs_initialized = False, num_allocs = 0, alloc_mutex = False, libc_calls = []\<rparr>"

subsection \<open>Hash map: the lock\<close>

definition mutex_lock :: "memdebug \<Rightarrow> fault + memdebug" where
  "mutex_lock st = (if alloc_mutex st then Inl Deadlock else Inr (st\<lparr>alloc_mutex := True\<rparr>))"

definition mutex_unlock :: "memdebug \<Rightarrow> memdebug" where
  "mutex_unlock st = st\<lparr>alloc_mutex := False\<rparr>"

subsection \<open>Hash map: the hash (part\_000, lines 71--92)\<close>

text \<open>The source recurses for ever on \<open>0\<close>; it is only called on \<open>1 + sizeof(void*)\<close>.\<close>

partial_function (option) log_base_2 :: "nat \<Rightarrow> nat option" where
  "log_base_2 num =
     (if num = 1 then Some 0
      else Option.bind (log_base_2 (num div 2)) (\<lambda>r. Some (1 + r)))"

definition ptr_hash :: "ptr \<Rightarrow> nat" where
  "ptr_hash val =
     (let logsize = the (log_base_2 (1 + sizeof_voidp));
          shifted = drop_bit logsize val;
          other = push_bit (8 - logsize) val;
          xed = shifted XOR other;
          ans = xed mod (of_nat MAP_BUF_SIZE)
      in unat ans)"

subsection \<open>Hash map: the registry (part\_000, lines 128--206)\<close>

definition memallocs_init :: "memdebug \<Rightarrow> memdebug" where
  "memallocs_init st =
     st\<lparr>allocs := (\<lambda>i. if i < MAP_BUF_SIZE
                        then (allocs st i)\<lparr>alloc := (alloc (allocs st i))\<lparr>ptr := 0\<rparr>, nextp := []\<rparr>
                        else allocs st i),
        memallocs_initialized := True\<rparr>"

definition ensure_init :: "memdebug \<Rightarrow> memdebug" where
  "ensure_init st = (if \<not> memallocs_initialized st then memallocs_init st else st)"

text \<open>
  \<^verbatim>\<open>alloc_add\<close>. The argument \<open>node\<close> is what the real
  \<^verbatim>\<open>malloc(sizeof(MapMember))\<close> returns when the chain has to grow; the source
  stores through it without a check. The walk to the end of the chain followed
  by linking the new node is \<open>link_at_end\<close>.
\<close>

fun link_at_end :: "chain \<Rightarrow> ptr \<times> MemAlloc \<Rightarrow> chain" where
  "link_at_end [] nd = [nd]"
| "link_at_end (m # rest) nd = m # link_at_end rest nd"

definition alloc_add :: "memdebug \<Rightarrow> MemAlloc \<Rightarrow> ptr \<Rightarrow> fault + memdebug" where
  "alloc_add st0 a node =
     (let st1 = ensure_init st0;
          st = st1\<lparr>num_allocs := num_allocs st1 + 1\<rparr>;
          h = ptr_hash (ptr a);
          bucket = allocs st h
      in if ptr (alloc bucket) = 0
         then Inr (st\<lparr>allocs := (allocs st)(h := bucket\<lparr>alloc := a\<rparr>)\<rparr>)
         else let st' = st\<lparr>libc_calls := libc_calls st @ [Malloc sizeof_MapMember node]\<rparr>
              in if node = 0 then Inl NullStore
                 else Inr (st'\<lparr>allocs := (allocs st)(h := bucket\<lparr>nextp := link_at_end (nextp bucket) (node, a)\<rparr>)\<rparr>))"

text \<open>
  The loop of \<^verbatim>\<open>alloc_remove\<close> once \<^verbatim>\<open>previous\<close> is set: the first chain node
  whose record has the address is unlinked; its own address, handed to
  \<^verbatim>\<open>free\<close>, is returned with the new chain.
\<close>

fun chain_remove :: "ptr \<Rightarrow> chain \<Rightarrow> chain \<times> ptr option" where
  "chain_remove p [] = ([], None)"
| "chain_remove p ((a, m) # rest) =
     (if ptr m = p then (rest, Some a)
      else (case chain_remove p rest of (rest', r) \<Rightarrow> ((a, m) # rest', r)))"

definition alloc_remove :: "memdebug \<Rightarrow> ptr \<Rightarrow> memdebug \<times> bool" where
  "alloc_remove st0 p =
     (let st = ensure_init st0;
          h = ptr_hash p;
          bucket = allocs st h
      in if ptr (alloc bucket) = p
         then (case nextp bucket of
                 (to_free, m) # rest \<Rightarrow>
                   (st\<lparr>allocs := (allocs st)(h := \<lparr>alloc = m, nextp = rest\<rparr>),
                       libc_calls := libc_calls st @ [Free to_free],
                       num_allocs := num_allocs st - 1\<rparr>, True)
               | [] \<Rightarrow>
                   (st\<lparr>allocs := (allocs st)(h := bucket\<lparr>alloc := (alloc bucket)\<lparr>ptr := 0\<rparr>, nextp := []\<rparr>),
                       num_allocs := num_allocs st - 1\<rparr>, True))
         else (case chain_remove p (nextp bucket) of
                 (c, Some freed) \<Rightarrow>
                   (st\<lparr>allocs := (allocs st)(h := bucket\<lparr>nextp := c\<rparr>),
                       libc_calls := libc_calls st @ [Free freed],
                       num_allocs := num_allocs st - 1\<rparr>, True)
               | (c, None) \<Rightarrow> (st, False)))"

subsection \<open>Hash map: heap dump and fatal faults (part\_000, lines 211--267)\<close>

fun dump_chain :: "chain \<Rightarrow> MemAlloc list" where
  "dump_chain [] = []"
| "dump_chain ((a, m) # rest) = (if ptr m = 0 then [] else m # dump_chain rest)"

definition dump_bucket :: "MapMember \<Rightarrow> MemAlloc list" where
  "dump_bucket b = (if ptr (alloc b) = 0 then [] else alloc b # dump_chain (nextp b))"

definition print_heap :: "memdebug \<Rightarrow> fault + (memdebug \<times> printed)" where
  "print_heap st0 =
     (case mutex_lock st0 of
        Inl f \<Rightarrow> Inl f
      | Inr st1 \<Rightarrow>
          (let st = ensure_init st1;
               recs = concat (map (\<lambda>i. dump_bucket (allocs st i)) [0..<MAP_BUF_SIZE]);
               total_allocated = foldl (\<lambda>t m. t + size_bytes m) 0 recs
           in Inr (mutex_unlock st, HeapDump recs total_allocated (num_allocs st))))"

definition mempanic :: "ptr \<Rightarrow> string \<Rightarrow> size_t \<Rightarrow> string \<Rightarrow> string \<Rightarrow> fault" where
  "mempanic badptr message ln fn fl =
     Exit MEMPANIC_EXIT_STATUS [PanicMessage message badptr ln fn fl]"

definition OOM :: "memdebug \<Rightarrow> size_t \<Rightarrow> string \<Rightarrow> string \<Rightarrow> size_t \<Rightarrow> fault" where
  "OOM st ln fn fl num_bytes =
     (case print_heap st of
        Inl f \<Rightarrow> f
      | Inr (st', dump) \<Rightarrow> Exit OOM_EXIT_STATUS [OomMessage ln fn fl num_bytes, dump])"

subsection \<open>Hash map: the wrappers (part\_000, lines 273--353)\<close>

text \<open>
  \<open>res\<close> is the result of the real \<^verbatim>\<open>malloc(n)\<close> (of the real
  \<^verbatim>\<open>realloc(ptr, n)\<close> for \<open>memdebug_realloc\<close>), \<open>node\<close> the result of the real
  \<^verbatim>\<open>malloc\<close> inside \<open>alloc_add\<close>, should it be called.
\<close>

definition memdebug_malloc ::
  "memdebug \<Rightarrow> size_t \<Rightarrow> size_t \<Rightarrow> string \<Rightarrow> string \<Rightarrow> ptr \<Rightarrow> ptr \<Rightarrow> fault + (memdebug \<times> ptr)" where
  "memdebug_malloc st0 n ln fn fl res node =
     (let st = st0\<lparr>libc_calls := libc_calls st0 @ [Malloc n res]\<rparr>
      in if res = 0 then Inl (OOM st ln fn fl n)
         else (case mutex_lock st of
                 Inl f \<Rightarrow> Inl f
               | Inr st1 \<Rightarrow>
                   (case alloc_add st1 \<lparr>ptr = res, size_bytes = n, line = ln, func = fn, file_name = fl\<rparr> node of
                      Inl f \<Rightarrow> Inl f
                    | Inr st2 \<Rightarrow> Inr (mutex_unlock st2, res))))"

definition memdebug_realloc ::
  "memdebug \<Rightarrow> ptr \<Rightarrow> size_t \<Rightarrow> size_t \<Rightarrow> string \<Rightarrow> string \<Rightarrow> ptr \<Rightarrow> ptr \<Rightarrow> fault + (memdebug \<times> ptr)" where
  "memdebug_realloc st0 p n ln fn fl res node =
     (case mutex_lock st0 of
        Inl f \<Rightarrow> Inl f
      | Inr st1 \<Rightarrow>
          (case alloc_remove st1 p of
             (st2, removed) \<Rightarrow>
               if p \<noteq> 0 \<and> \<not> removed
               then Inl (mempanic p ''Tried to realloc() an invalid pointer.'' ln fn fl)
               else let st3 = st2\<lparr>libc_calls := libc_calls st2 @ [Realloc p n res]\<rparr>
                    in if res = 0 then Inl (OOM st3 ln fn fl n)
                       else (case alloc_add st3 \<lparr>ptr = res, size_bytes = n, line = ln, func = fn, file_name = fl\<rparr> node of
                               Inl f \<Rightarrow> Inl f
                             | Inr st4 \<Rightarrow> Inr (mutex_unlock st4, res))))"

definition memdebug_free ::
  "memdebug \<Rightarrow> ptr \<Rightarrow> size_t \<Rightarrow> string \<Rightarrow> string \<Rightarrow> fault + memdebug" where
  "memdebug_free st0 p ln fn fl =
     (case mutex_lock st0 of
        Inl f \<Rightarrow> Inl f
      | Inr st1 \<Rightarrow>
          (case alloc_remove st1 p of
             (st2, removed) \<Rightarrow>
               if p \<noteq> 0 \<and> \<not> removed
               then Inl (mempanic p ''Tried to free() an invalid pointer.'' ln fn fl)
               else let st3 = mutex_unlock st2
                    in Inr (st3\<lparr>libc_calls := libc_calls st3 @ [Free p]\<rparr>)))"

subsection \<open>Growable array: data (memdebug.h, lines 61--83)\<close>

text \<open>
  \<^verbatim>\<open>allocs\<close> points to a heap block of records; the field \<open>allocs_arr\<close> is the
  contents of that block, as many records as the block has room for, and \<open>[]\<close>
  when the pointer is null. A read or a store outside the block is the fault
  \<open>BadAccess\<close>. Three things come from outside and are arguments of
  \<open>alloc_push_arr\<close>: the pointer \<open>blk\<close> the real \<^verbatim>\<open>malloc\<close> or \<^verbatim>\<open>realloc\<close>
  returns for the block, the indeterminate contents \<open>fresh\<close> of new storage, and
  \<open>new_allocs_cap\<close>, the value of the floating-point product
  \<^verbatim>\<open>allocs_cap * 1.4\<close> converted back to \<^verbatim>\<open>size_t\<close>. \<open>block_of contents n\<close> is
  a block of \<open>n\<close> records holding \<open>contents i\<close> at index \<open>i\<close>.
\<close>

record MemAlloc_arr =
  ptr_arr :: ptr
  size_arr :: size_t
  line_arr :: size_t
  file_arr :: string

datatype printed_arr =
    PanicMessage_arr string ptr size_t string
  | OomMessage_arr size_t string size_t
  | GrowFailed_arr
  | HeapDump_arr "MemAlloc_arr list" size_t size_t

datatype fault_arr = Exit_arr nat "printed_arr list" | Deadlock_arr | BadAccess

record memdebug_arr =
  num_allocs_arr :: size_t
  allocs_cap :: size_t
  allocs_arr :: "MemAlloc_arr list"
  alloc_mutex_arr :: bool

definition MEMDEBUG_START_NUM_ALLOCS :: size_t where
  "MEMDEBUG_START_NUM_ALLOCS = 5000"

definition MEM_FAIL_TO_FIND :: size_t where
  "MEM_FAIL_TO_FIND = 4294967295"

definition sizeof_MemAlloc_arr :: size_t where
  "sizeof_MemAlloc_arr = 32"

definition block_of :: "(nat \<Rightarrow> MemAlloc_arr) \<Rightarrow> nat \<Rightarrow> MemAlloc_arr list" where
  "block_of contents n = map contents [0..<n]"

definition init_state_arr :: memdebug_arr where
  "init_state_arr = \<lparr>num_allocs_arr = 0, allocs_cap = 0, allocs_arr = [], alloc_mutex_arr = False\<rparr>"

definition mutex_lock_arr :: "memdebug_arr \<Rightarrow> fault_arr + memdebug_arr" where
  "mutex_lock_arr st =
     (if alloc_mutex_arr st then Inl Deadlock_arr else Inr (st\<lparr>alloc_mutex_arr := True\<rparr>))"

definition mutex_unlock_arr :: "memdebug_arr \<Rightarrow> memdebug_arr" where
  "mutex_unlock_arr st = st\<lparr>alloc_mutex_arr := False\<rparr>"

subsection \<open>Growable array: heap dump and fatal faults (memdebug.h, lines 97--124)\<close>

text \<open>
  The loop of \<^verbatim>\<open>print_heap\<close> reads \<^verbatim>\<open>allocs[i]\<close> for \<open>i\<close> below \<^verbatim>\<open>num_allocs\<close>; its
  sum is a sum of words, in whatever order.
\<close>

function print_heap_loop :: "MemAlloc_arr list \<Rightarrow> nat \<Rightarrow> nat \<Rightarrow> fault_arr + (MemAlloc_arr list \<times> size_t)" where
  "print_heap_loop arr n i =
     (if i < n
      then (if i < length arr
            then (case print_heap_loop arr n (Suc i) of
                    Inl f \<Rightarrow> Inl f
                  | Inr (rs, tot) \<Rightarrow> Inr (arr ! i # rs, size_arr (arr ! i) + tot))
            else Inl BadAccess)
      else Inr ([], 0))"
  by pat_completeness auto
termination
  by (relation "measure (\<lambda>(arr, n, i). n - i)") auto

definition print_heap_arr :: "memdebug_arr \<Rightarrow> fault_arr + printed_arr" where
  "print_heap_arr st =
     (case print_heap_loop (allocs_arr st) (unat (num_allocs_arr st)) 0 of
        Inl f \<Rightarrow> Inl f
      | Inr (rs, total_allocated) \<Rightarrow> Inr (HeapDump_arr rs total_allocated (num_allocs_arr st)))"

definition mempanic_arr :: "ptr \<Rightarrow> string \<Rightarrow> size_t \<Rightarrow> string \<Rightarrow> fault_arr" where
  "mempanic_arr badptr message ln fl =
     Exit_arr MEMPANIC_EXIT_STATUS [PanicMessage_arr message badptr ln fl]"

definition OOM_arr :: "memdebug_arr \<Rightarrow> size_t \<Rightarrow> string \<Rightarrow> size_t \<Rightarrow> printed_arr list \<Rightarrow> fault_arr" where
  "OOM_arr st ln fl num_bytes before =
     (case print_heap_arr st of
        Inl f \<Rightarrow> f
      | Inr dump \<Rightarrow> Exit_arr OOM_EXIT_STATUS (before @ [OomMessage_arr ln fl num_bytes, dump]))"

subsection \<open>Growable array: the list of records (memdebug.h, lines 126--178)\<close>

function find_loop :: "MemAlloc_arr list \<Rightarrow> nat \<Rightarrow> ptr \<Rightarrow> nat \<Rightarrow> fault_arr + size_t" where
  "find_loop arr n p i =
     (if i < n
      then (if i < length arr
            then (if ptr_arr (arr ! i) = p then Inr (of_nat i) else find_loop arr n p (Suc i))
            else Inl BadAccess)
      else Inr MEM_FAIL_TO_FIND)"
  by pat_completeness auto
termination
  by (relation "measure (\<lambda>(arr, n, p, i). n - i)") auto

definition alloc_find_index :: "memdebug_arr \<Rightarrow> ptr \<Rightarrow> fault_arr + size_t" where
  "alloc_find_index st p = find_loop (allocs_arr st) (unat (num_allocs_arr st)) p 0"

definition store_arr :: "memdebug_arr \<Rightarrow> size_t \<Rightarrow> MemAlloc_arr \<Rightarrow> fault_arr + memdebug_arr" where
  "store_arr st index a =
     (if unat index < length (allocs_arr st)
      then Inr (st\<lparr>allocs_arr := (allocs_arr st)[unat index := a]\<rparr>)
      else Inl BadAccess)"

definition alloc_push_arr ::
  "memdebug_arr \<Rightarrow> MemAlloc_arr \<Rightarrow> ptr \<Rightarrow> size_t \<Rightarrow> (nat \<Rightarrow> MemAlloc_arr) \<Rightarrow> fault_arr + memdebug_arr" where
  "alloc_push_arr st0 a blk new_allocs_cap fresh =
     (let grown =
        (if allocs_cap st0 \<le> num_allocs_arr st0
         then (if allocs_cap st0 = 0
               then Inr (st0\<lparr>allocs_cap := MEMDEBUG_START_NUM_ALLOCS,
                             allocs_arr := (if blk = 0 then []
                                            else block_of fresh (unat MEMDEBUG_START_NUM_ALLOCS))\<rparr>)
               else (if blk = 0
                     then Inl (OOM_arr st0 153 ''memdebug.h'' (sizeof_MemAlloc_arr * new_allocs_cap)
                                 [GrowFailed_arr])
                     else Inr (st0\<lparr>allocs_cap := new_allocs_cap,
                                   allocs_arr := block_of (\<lambda>i. if i < length (allocs_arr st0)
                                                                then allocs_arr st0 ! i else fresh i)
                                                          (unat new_allocs_cap)\<rparr>)))
         else Inr st0)
      in case grown of
           Inl f \<Rightarrow> Inl f
         | Inr st \<Rightarrow>
             (case store_arr st (num_allocs_arr st) a of
                Inl f \<Rightarrow> Inl f
              | Inr st' \<Rightarrow> Inr (st'\<lparr>num_allocs_arr := num_allocs_arr st' + 1\<rparr>)))"

function shift_loop :: "MemAlloc_arr list \<Rightarrow> nat \<Rightarrow> nat \<Rightarrow> fault_arr + MemAlloc_arr list" where
  "shift_loop arr n index =
     (if index < n
      then (if index + 1 < length arr
            then shift_loop (arr[index := arr ! (index + 1)]) n (index + 1)
            else Inl BadAccess)
      else Inr arr)"
  by pat_completeness auto
termination
  by (relation "measure (\<lambda>(arr, n, index). n - index)") auto

text \<open>The loops are unfolded by hand, one iteration at a time.\<close>

declare print_heap_loop.simps [simp del] find_loop.simps [simp del] shift_loop.simps [simp del]

definition alloc_remove_arr :: "memdebug_arr \<Rightarrow> size_t \<Rightarrow> fault_arr + memdebug_arr" where
  "alloc_remove_arr st0 index =
     (let st = st0\<lparr>num_allocs_arr := num_allocs_arr st0 - 1\<rparr>
      in case shift_loop (allocs_arr st) (unat (num_allocs_arr st)) (unat index) of
           Inl f \<Rightarrow> Inl f
         | Inr arr \<Rightarrow> Inr (st\<lparr>allocs_arr := arr\<rparr>))"

definition alloc_update_arr :: "memdebug_arr \<Rightarrow> size_t \<Rightarrow> MemAlloc_arr \<Rightarrow> fault_arr + memdebug_arr" where
  "alloc_update_arr st index new_info = store_arr st index new_info"

subsection \<open>Growable array: the wrappers (memdebug.h, lines 184--265)\<close>

definition memdebug_malloc_arr ::
  "memdebug_arr \<Rightarrow> size_t \<Rightarrow> size_t \<Rightarrow> string \<Rightarrow> ptr \<Rightarrow> ptr \<Rightarrow> size_t \<Rightarrow> (nat \<Rightarrow> MemAlloc_arr)
     \<Rightarrow> fault_arr + (memdebug_arr \<times> ptr)" where
  "memdebug_malloc_arr st n ln fl res blk new_allocs_cap fresh =
     (if res = 0 then Inl (OOM_arr st ln fl n [])
      else (case mutex_lock_arr st of
              Inl f \<Rightarrow> Inl f
            | Inr st1 \<Rightarrow>
                (case alloc_push_arr st1 \<lparr>ptr_arr = res, size_arr = n, line_arr = ln, file_arr = fl\<rparr>
                        blk new_allocs_cap fresh of
                   Inl f \<Rightarrow> Inl f
                 | Inr st2 \<Rightarrow> Inr (mutex_unlock_arr st2, res))))"

definition memdebug_realloc_arr ::
  "memdebug_arr \<Rightarrow> ptr \<Rightarrow> size_t \<Rightarrow> size_t \<Rightarrow> string \<Rightarrow> ptr \<Rightarrow> fault_arr + (memdebug_arr \<times> ptr)" where
  "memdebug_realloc_arr st0 p n ln fl res =
     (case mutex_lock_arr st0 of
        Inl f \<Rightarrow> Inl f
      | Inr st \<Rightarrow>
          (case alloc_find_index st p of
             Inl f \<Rightarrow> Inl f
           | Inr alloc_index \<Rightarrow>
               if p \<noteq> 0 \<and> alloc_index = MEM_FAIL_TO_FIND
               then Inl (mempanic_arr p ''Tried to realloc() an invalid pointer.'' ln fl)
               else if res = 0 then Inl (OOM_arr st ln fl n [])
               else (case alloc_update_arr st alloc_index
                            \<lparr>ptr_arr = res, size_arr = n, line_arr = ln, file_arr = fl\<rparr> of
                       Inl f \<Rightarrow> Inl f
                     | Inr st' \<Rightarrow> Inr (mutex_unlock_arr st', res))))"

definition memdebug_free_arr ::
  "memdebug_arr \<Rightarrow> ptr \<Rightarrow> size_t \<Rightarrow> string \<Rightarrow> fault_arr + memdebug_arr" where
  "memdebug_free_arr st0 p ln fl =
     (case mutex_lock_arr st0 of
        Inl f \<Rightarrow> Inl f
      | Inr st \<Rightarrow>
          (case alloc_find_index st p of
             Inl f \<Rightarrow> Inl f
           | Inr alloc_index \<Rightarrow>
               if p \<noteq> 0 \<and> alloc_index = MEM_FAIL_TO_FIND
               then Inl (mempanic_arr p ''Tried to free() an invalid pointer.'' ln fl)
               else (case alloc_remove_arr st alloc_index of
                       Inl f \<Rightarrow> Inl f
                     | Inr st' \<Rightarrow> Inr (mutex_unlock_arr st'))))"

section \<open>Specification vocabulary\<close>

subsection \<open>Hash map: live records and the representation invariant\<close>

text \<open>
  A live record is a stored \<open>MemAlloc\<close> whose address is not null: a null
  \<^verbatim>\<open>alloc.ptr\<close> marks an empty inline slot.
\<close>

definition bucket_records :: "MapMember \<Rightarrow> MemAlloc list" where
  "bucket_records b = filter (\<lambda>m. ptr m \<noteq> 0) (alloc b # map snd (nextp b))"

definition bucket_addrs :: "MapMember \<Rightarrow> ptr list" where
  "bucket_addrs b = map ptr (bucket_records b)"

definition live_records :: "memdebug \<Rightarrow> MemAlloc set" where
  "live_records st = (\<Union>i\<in>{..<MAP_BUF_SIZE}. set (bucket_records (allocs st i)))"

definition live_addrs :: "memdebug \<Rightarrow> ptr set" where
  "live_addrs st = ptr ` live_records st"

text \<open>What \<open>print_heap\<close> enumerates: bucket order, then chain order.\<close>

definition heap_records :: "memdebug \<Rightarrow> MemAlloc list" where
  "heap_records st = concat (map (\<lambda>i. dump_bucket (allocs st i)) [0..<MAP_BUF_SIZE])"

text \<open>
  The shape every bucket of index \<open>i\<close> keeps: an empty inline slot has no chain,
  no chained record has a null address, every record hashes to \<open>i\<close>, and no
  address is stored twice. Before \<open>memallocs_init\<close> has run, the table is the
  zeroed static storage.
\<close>

definition bucket_inv :: "nat \<Rightarrow> MapMember \<Rightarrow> bool" where
  "bucket_inv i b \<longleftrightarrow>
     (ptr (alloc b) = 0 \<longrightarrow> nextp b = []) \<and>
     (\<forall>m\<in>snd ` set (nextp b). ptr m \<noteq> 0) \<and>
     (\<forall>a\<in>set (bucket_addrs b). ptr_hash a = i) \<and>
     distinct (bucket_addrs b)"

definition registry_inv :: "memdebug \<Rightarrow> bool" where
  "registry_inv st \<longleftrightarrow>
     (\<forall>i<MAP_BUF_SIZE. bucket_inv i (allocs st i)) \<and>
     (\<not> memallocs_initialized st \<longrightarrow>
        (\<forall>i<MAP_BUF_SIZE. ptr (alloc (allocs st i)) = 0 \<and> nextp (allocs st i) = []))"

definition no_duplicates :: "memdebug \<Rightarrow> bool" where
  "no_duplicates st \<longleftrightarrow>
     (\<forall>i<MAP_BUF_SIZE. distinct (bucket_addrs (allocs st i))) \<and>
     (\<forall>i<MAP_BUF_SIZE. \<forall>j<MAP_BUF_SIZE.
        i \<noteq> j \<longrightarrow> set (bucket_addrs (allocs st i)) \<inter> set (bucket_addrs (allocs st j)) = {})"

text \<open>What \<open>alloc_remove\<close> and \<open>alloc_add\<close> do to the one bucket they touch.\<close>

definition bucket_remove :: "ptr \<Rightarrow> MapMember \<Rightarrow> MapMember" where
  "bucket_remove p b =
     (if ptr (alloc b) = p
      then (case nextp b of
              (x, m) # rest \<Rightarrow> \<lparr>alloc = m, nextp = rest\<rparr>
            | [] \<Rightarrow> b\<lparr>alloc := (alloc b)\<lparr>ptr := 0\<rparr>, nextp := []\<rparr>)
      else b\<lparr>nextp := fst (chain_remove p (nextp b))\<rparr>)"

definition bucket_add :: "MemAlloc \<Rightarrow> ptr \<Rightarrow> MapMember \<Rightarrow> MapMember" where
  "bucket_add a node b =
     (if ptr (alloc b) = 0 then b\<lparr>alloc := a\<rparr> else b\<lparr>nextp := nextp b @ [(node, a)]\<rparr>)"

text \<open>
  The states a program reaches through the wrappers and \<open>print_heap\<close>, every
  call returning normally (a call that faults ends the process), with a real
  allocator that never hands out an address that is still live. Misuse, the
  release or resize of a non-null address without a record, faults and so
  reaches nothing.
\<close>

inductive reachable :: "memdebug \<Rightarrow> bool" where
  start: "reachable init_state"
| allocate: "reachable st \<Longrightarrow> res \<notin> live_addrs st \<Longrightarrow>
     memdebug_malloc st n ln fn fl res node = Inr (st', r) \<Longrightarrow> reachable st'"
| resize: "reachable st \<Longrightarrow> res \<notin> live_addrs st - {p} \<Longrightarrow>
     memdebug_realloc st p n ln fn fl res node = Inr (st', r) \<Longrightarrow> reachable st'"
| release: "reachable st \<Longrightarrow> memdebug_free st p ln fn fl = Inr st' \<Longrightarrow> reachable st'"
| dump: "reachable st \<Longrightarrow> print_heap st = Inr (st', d) \<Longrightarrow> reachable st'"

text \<open>
  The same runs with no null address passed to resize or release, and the live
  count they keep: \<open>num_allocs\<close> is the number of live addresses, as a
  \<^verbatim>\<open>size_t\<close>.
\<close>

inductive reachable_nonnull :: "memdebug \<Rightarrow> bool" where
  start_nn: "reachable_nonnull init_state"
| allocate_nn: "reachable_nonnull st \<Longrightarrow> res \<notin> live_addrs st \<Longrightarrow>
     memdebug_malloc st n ln fn fl res node = Inr (st', r) \<Longrightarrow> reachable_nonnull st'"
| resize_nn: "reachable_nonnull st \<Longrightarrow> p \<noteq> 0 \<Longrightarrow> res \<notin> live_addrs st - {p} \<Longrightarrow>
     memdebug_realloc st p n ln fn fl res node = Inr (st', r) \<Longrightarrow> reachable_nonnull st'"
| release_nn: "reachable_nonnull st \<Longrightarrow> p \<noteq> 0 \<Longrightarrow>
     memdebug_free st p ln fn fl = Inr st' \<Longrightarrow> reachable_nonnull st'"
| dump_nn: "reachable_nonnull st \<Longrightarrow> print_heap st = Inr (st', d) \<Longrightarrow> reachable_nonnull st'"

definition count_inv :: "memdebug \<Rightarrow> bool" where
  "count_inv st \<longleftrightarrow> num_allocs st = of_nat (card (live_addrs st))"

subsection \<open>Growable array: where an address is found\<close>

definition first_index :: "memdebug_arr \<Rightarrow> ptr \<Rightarrow> nat \<Rightarrow> bool" where
  "first_index st p i \<longleftrightarrow>
     i < unat (num_allocs_arr st) \<and> ptr_arr (allocs_arr st ! i) = p \<and>
     (\<forall>j<i. ptr_arr (allocs_arr st ! j) \<noteq> p)"

definition absent_arr :: "memdebug_arr \<Rightarrow> ptr \<Rightarrow> bool" where
  "absent_arr st p \<longleftrightarrow> (\<forall>j<unat (num_allocs_arr st). ptr_arr (allocs_arr st ! j) \<noteq> p)"

subsection \<open>Example states\<close>

text \<open>
  \<open>st_one\<close>: the hash map after \<^verbatim>\<open>malloc(1)\<close> returned \<^verbatim>\<open>0x8\<close> on line 26 of
  \<^verbatim>\<open>test.c\<close>. \<open>st_two\<close>: after a second \<^verbatim>\<open>malloc(2)\<close> returned \<^verbatim>\<open>0x17b08\<close>, which
  hashes to the same bucket 257, the chain node being at \<^verbatim>\<open>0x1000\<close>.
  \<open>st_null_resized\<close>: the hash map after \<^verbatim>\<open>realloc(NULL, 10)\<close> returned \<^verbatim>\<open>0x8\<close> as
  the first call; \<open>st_null_released\<close>: after \<^verbatim>\<open>0x8\<close> has then been released.
  \<open>st_zero\<close>: the hash map after \<^verbatim>\<open>malloc(1)\<close> returned \<^verbatim>\<open>0x34900\<close>, which hashes to
  bucket 0.
\<close>

definition rec_one :: MemAlloc where
  "rec_one = \<lparr>ptr = 8, size_bytes = 1, line = 26, func = ''main'', file_name = ''test.c''\<rparr>"

definition rec_two :: MemAlloc where
  "rec_two = \<lparr>ptr = 97032, size_bytes = 2, line = 27, func = ''main'', file_name = ''test.c''\<rparr>"

definition st_one :: memdebug where
  "st_one = \<lparr>allocs = (\<lambda>i. \<lparr>alloc = zero_alloc, nextp = []\<rparr>)(257 := \<lparr>alloc = rec_one, nextp = []\<rparr>),
     memallocs_initialized = True, num_allocs = 1, alloc_mutex = False,
     libc_calls = [Malloc 1 8]\<rparr>"

definition st_two :: memdebug where
  "st_two = \<lparr>allocs = (\<lambda>i. \<lparr>alloc = zero_alloc, nextp = []\<rparr>)
                 (257 := \<lparr>alloc = rec_one, nextp = [(4096, rec_two)]\<rparr>),
     memallocs_initialized = True, num_allocs = 2, alloc_mutex = False,
     libc_calls = [Malloc 1 8, Malloc 2 97032, Malloc 48 4096]\<rparr>"

definition st_null_resized :: memdebug where
  "st_null_resized =
     \<lparr>allocs = (\<lambda>i. \<lparr>alloc = zero_alloc, nextp = []\<rparr>)
        (257 := \<lparr>alloc = \<lparr>ptr = 8, size_bytes = 10, line = 27, func = ''main'',
                           file_name = ''test.c''\<rparr>, nextp = []\<rparr>),
      memallocs_initialized = True, num_allocs = 0, alloc_mutex = False,
      libc_calls = [Realloc 0 10 8]\<rparr>"

definition st_zero :: memdebug where
  "st_zero =
     \<lparr>allocs = (\<lambda>i. \<lparr>alloc = zero_alloc, nextp = []\<rparr>)
        (0 := \<lparr>alloc = \<lparr>ptr = 215296, size_bytes = 1, line = 26, func = ''main'',
                         file_name = ''test.c''\<rparr>, nextp = []\<rparr>),
      memallocs_initialized = True, num_allocs = 1, alloc_mutex = False,
      libc_calls = [Malloc 1 215296]\<rparr>"

definition st_null_released :: memdebug where
  "st_null_released =
     \<lparr>allocs = (\<lambda>i. \<lparr>alloc = zero_alloc, nextp = []\<rparr>)
        (257 := \<lparr>alloc = \<lparr>ptr = 0, size_bytes = 10, line = 27, func = ''main'',
                           file_name = ''test.c''\<rparr>, nextp = []\<rparr>),
      memallocs_initialized = True, num_allocs = 18446744073709551615, alloc_mutex = False,
      libc_calls = [Realloc 0 10 8, Free 8]\<rparr>"

text \<open>
  \<open>st_one_arr\<close>: the array after \<^verbatim>\<open>malloc(1)\<close> returned \<^verbatim>\<open>0x8\<close>. \<open>big_state\<close>: an
  array of \<open>2\<^sup>3\<^sup>2\<close> live records with distinct addresses, the record at index
  4294967295 having address \<open>2\<^sup>3\<^sup>6\<close>.
\<close>

definition rec_one_arr :: MemAlloc_arr where
  "rec_one_arr = \<lparr>ptr_arr = 8, size_arr = 1, line_arr = 26, file_arr = ''test.c''\<rparr>"

definition st_one_arr :: "(nat \<Rightarrow> MemAlloc_arr) \<Rightarrow> memdebug_arr" where
  "st_one_arr fresh = \<lparr>num_allocs_arr = 1, allocs_cap = 5000,
     allocs_arr = (block_of fresh 5000)[0 := rec_one_arr], alloc_mutex_arr = False\<rparr>"

definition big_state :: memdebug_arr where
  "big_state = \<lparr>num_allocs_arr = 4294967296, allocs_cap = 4294967296,
     allocs_arr = block_of (\<lambda>i. \<lparr>ptr_arr = 16 * (of_nat i + 1), size_arr = 1, line_arr = 0,
                                  file_arr = []\<rparr>) 4294967296,
     alloc_mutex_arr = False\<rparr>"

section \<open>Hash map: lemmas\<close>

subsection \<open>Chains, buckets and the table\<close>

lemma link_at_end_eq: "link_at_end c nd = c @ [nd]"
  by (induction c) auto

lemma chain_remove_absent: "p \<notin> ptr ` snd ` set c \<Longrightarrow> chain_remove p c = (c, None)"
  by (induction c) auto

lemma chain_remove_present:
  "p \<in> ptr ` snd ` set c \<Longrightarrow>
   \<exists>pre x m post. c = pre @ (x, m) # post \<and> ptr m = p \<and> p \<notin> ptr ` snd ` set pre \<and>
      chain_remove p c = (pre @ post, Some x)"
proof (induction c)
  case Nil
  then show ?case by simp
next
  case (Cons nd c)
  obtain a m where nd: "nd = (a, m)" by (cases nd)
  show ?case
  proof (cases "ptr m = p")
    case True
    then have "nd # c = [] @ (a, m) # c \<and> ptr m = p \<and> p \<notin> ptr ` snd ` set [] \<and>
      chain_remove p (nd # c) = ([] @ c, Some a)"
      by (simp add: nd)
    then show ?thesis by blast
  next
    case False
    with Cons.prems nd have "p \<in> ptr ` snd ` set c" by auto
    from Cons.IH[OF this] obtain pre x m' post where
      h: "c = pre @ (x, m') # post" "ptr m' = p" "p \<notin> ptr ` snd ` set pre"
         "chain_remove p c = (pre @ post, Some x)"
      by blast
    have "nd # c = (nd # pre) @ (x, m') # post \<and> ptr m' = p \<and> p \<notin> ptr ` snd ` set (nd # pre) \<and>
      chain_remove p (nd # c) = ((nd # pre) @ post, Some x)"
      using h False by (simp add: nd)
    then show ?thesis by blast
  qed
qed

lemma chain_remove_found_iff: "snd (chain_remove p c) \<noteq> None \<longleftrightarrow> p \<in> ptr ` snd ` set c"
  using chain_remove_absent[of p c] chain_remove_present[of p c] by fastforce

lemma chain_remove_addrs:
  "map (ptr \<circ> snd) (fst (chain_remove p c)) = remove1 p (map (ptr \<circ> snd) c)"
  by (induction c) (auto split: prod.splits)

lemma chain_remove_subset: "set (fst (chain_remove p c)) \<subseteq> set c"
  by (induction c) (auto split: prod.splits if_splits)

lemma bucket_addrs_inv:
  "bucket_inv i b \<Longrightarrow>
   bucket_addrs b = (if ptr (alloc b) = 0 then [] else ptr (alloc b) # map (ptr \<circ> snd) (nextp b))"
  by (auto simp: bucket_inv_def bucket_addrs_def bucket_records_def filter_id_conv)

lemma bucket_records_inv:
  "bucket_inv i b \<Longrightarrow>
   bucket_records b = (if ptr (alloc b) = 0 then [] else alloc b # map snd (nextp b))"
  by (auto simp: bucket_inv_def bucket_records_def filter_id_conv)

lemma bucket_remove_addrs:
  assumes "bucket_inv i b"
  shows "bucket_addrs (bucket_remove p b) = remove1 p (bucket_addrs b)"
proof (cases "ptr (alloc b) = p")
  case True
  show ?thesis
  proof (cases "nextp b")
    case Nil
    with True assms show ?thesis
      by (simp add: bucket_remove_def bucket_addrs_def bucket_records_def)
  next
    case (Cons nd rest)
    obtain x m where nd: "nd = (x, m)" by (cases nd)
    from assms Cons nd have nz: "ptr (alloc b) \<noteq> 0" "ptr m \<noteq> 0" "\<forall>m\<in>snd ` set rest. ptr m \<noteq> 0"
      by (auto simp: bucket_inv_def)
    then have "filter (\<lambda>m. ptr m \<noteq> 0) (map snd rest) = map snd rest"
      by (auto simp: filter_id_conv)
    with True Cons nd nz show ?thesis
      by (simp add: bucket_remove_def bucket_addrs_def bucket_records_def)
  qed
next
  case False
  from assms have nz: "\<forall>m\<in>snd ` set (nextp b). ptr m \<noteq> 0"
    by (simp add: bucket_inv_def)
  with chain_remove_subset[of p "nextp b"]
  have nz': "\<forall>m\<in>snd ` set (fst (chain_remove p (nextp b))). ptr m \<noteq> 0"
    by blast
  have f1: "filter (\<lambda>m. ptr m \<noteq> 0) (map snd (nextp b)) = map snd (nextp b)"
    using nz by (auto simp: filter_id_conv)
  have f2: "filter (\<lambda>m. ptr m \<noteq> 0) (map snd (fst (chain_remove p (nextp b))))
              = map snd (fst (chain_remove p (nextp b)))"
    using nz' by (auto simp: filter_id_conv)
  have "map ptr (map snd (fst (chain_remove p (nextp b)))) = remove1 p (map ptr (map snd (nextp b)))"
    using chain_remove_addrs[of p "nextp b"] by simp
  with False f1 f2 show ?thesis
    by (simp add: bucket_remove_def bucket_addrs_def bucket_records_def)
qed

lemma bucket_remove_inv:
  assumes "bucket_inv i b"
  shows "bucket_inv i (bucket_remove p b)"
proof -
  have a: "bucket_addrs (bucket_remove p b) = remove1 p (bucket_addrs b)"
    using assms by (rule bucket_remove_addrs)
  have c1: "ptr (alloc (bucket_remove p b)) = 0 \<longrightarrow> nextp (bucket_remove p b) = []"
    using assms by (auto simp: bucket_remove_def bucket_inv_def split: list.splits)
  have c2: "\<forall>m\<in>snd ` set (nextp (bucket_remove p b)). ptr m \<noteq> 0"
    using assms chain_remove_subset[of p "nextp b"]
    by (auto simp: bucket_remove_def bucket_inv_def split: list.splits)
  have c3: "\<forall>a\<in>set (bucket_addrs (bucket_remove p b)). ptr_hash a = i"
    using assms a by (auto simp: bucket_inv_def dest: notin_set_remove1)
  have c4: "distinct (bucket_addrs (bucket_remove p b))"
    using assms a by (simp add: bucket_inv_def)
  from c1 c2 c3 c4 show ?thesis unfolding bucket_inv_def by blast
qed

lemma bucket_add_addrs:
  assumes "ptr a \<noteq> 0" "bucket_inv i b"
  shows "bucket_addrs (bucket_add a node b) = bucket_addrs b @ [ptr a]"
            "bucket_records (bucket_add a node b) = bucket_records b @ [a]"
  using assms by (auto simp: bucket_add_def bucket_addrs_def bucket_records_def bucket_inv_def)

lemma bucket_add_inv:
  assumes "bucket_inv i b" "ptr a \<noteq> 0" "ptr_hash (ptr a) = i" "ptr a \<notin> set (bucket_addrs b)"
  shows "bucket_inv i (bucket_add a node b)"
proof -
  have c1: "ptr (alloc (bucket_add a node b)) = 0 \<longrightarrow> nextp (bucket_add a node b) = []"
    using assms by (auto simp: bucket_add_def bucket_inv_def)
  have c2: "\<forall>m\<in>snd ` set (nextp (bucket_add a node b)). ptr m \<noteq> 0"
    using assms by (auto simp: bucket_add_def bucket_inv_def)
  have ad: "bucket_addrs (bucket_add a node b) = bucket_addrs b @ [ptr a]"
    using assms by (simp add: bucket_add_addrs)
  have c3: "\<forall>x\<in>set (bucket_addrs (bucket_add a node b)). ptr_hash x = i"
    using assms by (auto simp: ad bucket_inv_def)
  have c4: "distinct (bucket_addrs (bucket_add a node b))"
    using assms by (auto simp: ad bucket_inv_def)
  from c1 c2 c3 c4 show ?thesis unfolding bucket_inv_def by blast
qed

lemma log_base_2_9: "log_base_2 9 = Some 3"
  by (simp add: log_base_2.simps)

lemma ptr_hash_eq: "ptr_hash val = unat ((drop_bit 3 val XOR push_bit 5 val) mod 100000)"
  by (simp add: ptr_hash_def sizeof_voidp_def MAP_BUF_SIZE_def log_base_2_9)

lemma ptr_hash_less: "ptr_hash val < MAP_BUF_SIZE"
proof -
  have "unat (x mod (100000 :: 64 word)) < 100000" for x
    by (simp add: unat_mod_distrib)
  then show ?thesis by (simp add: ptr_hash_eq MAP_BUF_SIZE_def)
qed

lemma ptr_hash_null: "ptr_hash 0 = 0"
  by (simp add: ptr_hash_eq)

lemma ensure_init_inv:
  "registry_inv st \<Longrightarrow> ensure_init st = st\<lparr>memallocs_initialized := True\<rparr>"
proof -
  assume inv: "registry_inv st"
  show ?thesis
  proof (cases "memallocs_initialized st")
    case True
    then show ?thesis by (simp add: ensure_init_def)
  next
    case False
    with inv have e: "\<forall>i<MAP_BUF_SIZE. ptr (alloc (allocs st i)) = 0 \<and> nextp (allocs st i) = []"
      by (simp add: registry_inv_def)
    have "(\<lambda>i. if i < MAP_BUF_SIZE
                then (allocs st i)\<lparr>alloc := (alloc (allocs st i))\<lparr>ptr := 0\<rparr>, nextp := []\<rparr>
                else allocs st i) = allocs st"
    proof
      fix i
      show "(if i < MAP_BUF_SIZE
             then (allocs st i)\<lparr>alloc := (alloc (allocs st i))\<lparr>ptr := 0\<rparr>, nextp := []\<rparr>
             else allocs st i) = allocs st i"
        using e by (cases "i < MAP_BUF_SIZE") (auto intro: MapMember.equality MemAlloc.equality)
    qed
    with False show ?thesis by (simp add: ensure_init_def memallocs_init_def)
  qed
qed

lemma alloc_remove_eq:
  assumes "registry_inv st"
  shows "alloc_remove st p =
     (let h = ptr_hash p; b = allocs st h;
          found = (ptr (alloc b) = p \<or> p \<in> ptr ` snd ` set (nextp b));
          freed = (if ptr (alloc b) = p then (case nextp b of [] \<Rightarrow> [] | (x, m) # rest \<Rightarrow> [Free x])
                   else (case snd (chain_remove p (nextp b)) of None \<Rightarrow> [] | Some x \<Rightarrow> [Free x]))
      in if found
         then (st\<lparr>allocs := (allocs st)(h := bucket_remove p b),
                  memallocs_initialized := True,
                  num_allocs := num_allocs st - 1,
                  libc_calls := libc_calls st @ freed\<rparr>, True)
         else (st\<lparr>memallocs_initialized := True\<rparr>, False))"
proof -
  let ?b = "allocs st (ptr_hash p)"
  show ?thesis
  proof (cases "ptr (alloc ?b) = p")
    case True
    then show ?thesis
      by (cases "nextp ?b")
         (auto simp: alloc_remove_def ensure_init_inv[OF assms] Let_def bucket_remove_def)
  next
    case False
    show ?thesis
    proof (cases "p \<in> ptr ` snd ` set (nextp ?b)")
      case True
      from chain_remove_present[OF this] obtain c x where
        "chain_remove p (nextp ?b) = (c, Some x)" by blast
      with False True show ?thesis
        by (simp add: alloc_remove_def ensure_init_inv[OF assms] Let_def bucket_remove_def)
    next
      case True': False
      from chain_remove_absent[OF this] False True' show ?thesis
        by (simp add: alloc_remove_def ensure_init_inv[OF assms] Let_def)
    qed
  qed
qed

lemma alloc_add_eq:
  assumes "registry_inv st"
  shows "alloc_add st a node =
     (let h = ptr_hash (ptr a); b = allocs st h
      in if ptr (alloc b) = 0
         then Inr (st\<lparr>allocs := (allocs st)(h := bucket_add a node b),
                      memallocs_initialized := True,
                      num_allocs := num_allocs st + 1\<rparr>)
         else if node = 0 then Inl NullStore
         else Inr (st\<lparr>allocs := (allocs st)(h := bucket_add a node b),
                      memallocs_initialized := True,
                      num_allocs := num_allocs st + 1,
                      libc_calls := libc_calls st @ [Malloc sizeof_MapMember node]\<rparr>))"
  by (simp add: alloc_add_def ensure_init_inv[OF assms] Let_def bucket_add_def link_at_end_eq)

lemma live_addrs_eq: "live_addrs st = (\<Union>i\<in>{..<MAP_BUF_SIZE}. set (bucket_addrs (allocs st i)))"
  by (auto simp: live_addrs_def live_records_def bucket_addrs_def)

lemma live_addrs_hash:
  assumes "registry_inv st"
  shows "a \<in> live_addrs st \<longleftrightarrow> a \<in> set (bucket_addrs (allocs st (ptr_hash a)))"
proof
  assume "a \<in> live_addrs st"
  then obtain i where i: "i < MAP_BUF_SIZE" "a \<in> set (bucket_addrs (allocs st i))"
    by (auto simp: live_addrs_eq)
  with assms have "ptr_hash a = i" by (auto simp: registry_inv_def bucket_inv_def)
  with i show "a \<in> set (bucket_addrs (allocs st (ptr_hash a)))" by simp
next
  assume "a \<in> set (bucket_addrs (allocs st (ptr_hash a)))"
  with ptr_hash_less[of a] show "a \<in> live_addrs st" by (auto simp: live_addrs_eq)
qed

lemma registry_inv_bucket_update:
  assumes "registry_inv st" "bucket_inv h b'" "allocs st' = (allocs st)(h := b')"
    "memallocs_initialized st'"
  shows "registry_inv st'"
  using assms by (simp add: registry_inv_def)

lemma registry_inv_same_allocs:
  assumes "registry_inv st" "allocs st' = allocs st" "memallocs_initialized st \<longrightarrow> memallocs_initialized st'"
    "memallocs_initialized st' \<or> \<not> memallocs_initialized st"
  shows "registry_inv st'"
  using assms by (auto simp: registry_inv_def)

lemma live_records_same_allocs: "allocs st' = allocs st \<Longrightarrow> live_records st' = live_records st"
  by (simp add: live_records_def)

lemma live_addrs_same_allocs: "allocs st' = allocs st \<Longrightarrow> live_addrs st' = live_addrs st"
  by (simp add: live_addrs_def live_records_def)

lemma remove_live_addrs:
  assumes inv: "registry_inv st" and inv': "registry_inv st'"
    and upd: "allocs st' = (allocs st)(ptr_hash p := bucket_remove p (allocs st (ptr_hash p)))"
  shows "live_addrs st' = live_addrs st - {p}"
proof (rule set_eqI)
  fix a
  have b: "bucket_inv (ptr_hash p) (allocs st (ptr_hash p))"
    using inv ptr_hash_less[of p] by (simp add: registry_inv_def)
  show "a \<in> live_addrs st' \<longleftrightarrow> a \<in> live_addrs st - {p}"
  proof (cases "ptr_hash a = ptr_hash p")
    case True
    have "a \<in> live_addrs st' \<longleftrightarrow> a \<in> set (remove1 p (bucket_addrs (allocs st (ptr_hash p))))"
      using True upd by (simp add: live_addrs_hash[OF inv'] bucket_remove_addrs[OF b])
    also have "\<dots> \<longleftrightarrow> a \<in> set (bucket_addrs (allocs st (ptr_hash p))) \<and> a \<noteq> p"
      using b by (simp add: bucket_inv_def)
    also have "\<dots> \<longleftrightarrow> a \<in> live_addrs st - {p}"
      using True by (simp add: live_addrs_hash[OF inv])
    finally show ?thesis .
  next
    case False
    then have "a \<noteq> p" by auto
    with False upd show ?thesis
      by (simp add: live_addrs_hash[OF inv'] live_addrs_hash[OF inv])
  qed
qed

lemma bucket_remove_absent:
  assumes "bucket_inv i b" "ptr (alloc b) \<noteq> p" "p \<notin> ptr ` snd ` set (nextp b)"
  shows "bucket_remove p b = b"
  using assms chain_remove_absent[of p "nextp b"] by (simp add: bucket_remove_def)

lemma alloc_remove_allocs:
  assumes "registry_inv st"
  shows "allocs (fst (alloc_remove st p)) =
         (allocs st)(ptr_hash p := bucket_remove p (allocs st (ptr_hash p)))"
proof -
  have b: "bucket_inv (ptr_hash p) (allocs st (ptr_hash p))"
    using assms ptr_hash_less[of p] by (simp add: registry_inv_def)
  show ?thesis
  proof (cases "ptr (alloc (allocs st (ptr_hash p))) = p \<or>
                p \<in> ptr ` snd ` set (nextp (allocs st (ptr_hash p)))")
    case True
    then show ?thesis unfolding alloc_remove_eq[OF assms] Let_def by auto
  next
    case False
    then have "bucket_remove p (allocs st (ptr_hash p)) = allocs st (ptr_hash p)"
      using bucket_remove_absent[OF b, of p] by blast
    with False show ?thesis unfolding alloc_remove_eq[OF assms] Let_def by auto
  qed
qed

lemma alloc_remove_initialized:
  "memallocs_initialized (fst (alloc_remove st p))"
  by (auto simp: alloc_remove_def Let_def ensure_init_def memallocs_init_def split: list.splits prod.splits option.splits)

lemma alloc_remove_inv:
  assumes "registry_inv st"
  shows "registry_inv (fst (alloc_remove st p))"
proof -
  have b: "bucket_inv (ptr_hash p) (bucket_remove p (allocs st (ptr_hash p)))"
    using assms ptr_hash_less[of p] by (simp add: registry_inv_def bucket_remove_inv)
  show ?thesis
    by (rule registry_inv_bucket_update[OF assms b alloc_remove_allocs[OF assms]
          alloc_remove_initialized])
qed

lemma alloc_remove_live_addrs:
  assumes "registry_inv st"
  shows "live_addrs (fst (alloc_remove st p)) = live_addrs st - {p}"
  by (rule remove_live_addrs[OF assms alloc_remove_inv[OF assms] alloc_remove_allocs[OF assms]])

lemma found_iff_live:
  assumes "registry_inv st" "p \<noteq> 0"
  shows "(ptr (alloc (allocs st (ptr_hash p))) = p \<or> p \<in> ptr ` snd ` set (nextp (allocs st (ptr_hash p))))
         \<longleftrightarrow> p \<in> live_addrs st"
proof -
  have b: "bucket_inv (ptr_hash p) (allocs st (ptr_hash p))"
    using assms ptr_hash_less[of p] by (simp add: registry_inv_def)
  show ?thesis
    unfolding live_addrs_hash[OF assms(1)] bucket_addrs_inv[OF b]
    using assms(2) b by (auto simp: bucket_inv_def)
qed

lemma alloc_remove_found:
  assumes "registry_inv st" "p \<noteq> 0"
  shows "snd (alloc_remove st p) \<longleftrightarrow> p \<in> live_addrs st"
  unfolding alloc_remove_eq[OF assms(1)] Let_def
  using found_iff_live[OF assms] by auto

lemma alloc_remove_num:
  assumes "registry_inv st"
  shows "num_allocs (fst (alloc_remove st p)) =
          (if snd (alloc_remove st p) then num_allocs st - 1 else num_allocs st)"
  unfolding alloc_remove_eq[OF assms(1)] Let_def by auto

lemma alloc_remove_mutex:
  "alloc_mutex (fst (alloc_remove st p)) = alloc_mutex st"
  by (auto simp: alloc_remove_def Let_def ensure_init_def memallocs_init_def split: list.splits prod.splits option.splits)

lemma live_records_insert:
  assumes "h < MAP_BUF_SIZE" "allocs st' = (allocs st)(h := b')"
    "set (bucket_records b') = insert a (set (bucket_records (allocs st h)))"
  shows "live_records st' = insert a (live_records st)"
proof (rule set_eqI)
  fix m
  have "m \<in> live_records st' \<longleftrightarrow>
          (\<exists>i<MAP_BUF_SIZE. m \<in> set (bucket_records (if i = h then b' else allocs st i)))"
    using assms(2) by (auto simp: live_records_def)
  also have "\<dots> \<longleftrightarrow> m = a \<or> (\<exists>i<MAP_BUF_SIZE. m \<in> set (bucket_records (allocs st i)))"
    using assms(1,3) by (auto split: if_splits)
  also have "\<dots> \<longleftrightarrow> m \<in> insert a (live_records st)"
    by (auto simp: live_records_def)
  finally show "m \<in> live_records st' \<longleftrightarrow> m \<in> insert a (live_records st)" .
qed

lemma alloc_add_ok:
  assumes inv: "registry_inv st" and nz: "ptr a \<noteq> 0" and ok: "alloc_add st a node = Inr st'"
  shows "allocs st' = (allocs st)(ptr_hash (ptr a) := bucket_add a node (allocs st (ptr_hash (ptr a))))"
    and "memallocs_initialized st'"
    and "num_allocs st' = num_allocs st + 1"
    and "alloc_mutex st' = alloc_mutex st"
    and "live_records st' = insert a (live_records st)"
proof -
  let ?h = "ptr_hash (ptr a)"
  let ?b = "allocs st ?h"
  show u: "allocs st' = (allocs st)(?h := bucket_add a node ?b)"
    and "memallocs_initialized st'" and "num_allocs st' = num_allocs st + 1"
    and "alloc_mutex st' = alloc_mutex st"
    using ok unfolding alloc_add_eq[OF inv] Let_def by (auto split: if_splits)
  have b: "bucket_inv ?h ?b"
    using inv ptr_hash_less[of "ptr a"] by (simp add: registry_inv_def)
  have "set (bucket_records (bucket_add a node ?b)) = insert a (set (bucket_records ?b))"
    using bucket_add_addrs(2)[OF nz b] by simp
  from live_records_insert[OF ptr_hash_less u this]
  show "live_records st' = insert a (live_records st)" .
qed

lemma alloc_add_inv:
  assumes inv: "registry_inv st" and nz: "ptr a \<noteq> 0" and fresh: "ptr a \<notin> live_addrs st"
    and ok: "alloc_add st a node = Inr st'"
  shows "registry_inv st'"
proof -
  let ?h = "ptr_hash (ptr a)"
  have b: "bucket_inv ?h (allocs st ?h)"
    using inv ptr_hash_less[of "ptr a"] by (simp add: registry_inv_def)
  have "ptr a \<notin> set (bucket_addrs (allocs st ?h))"
    using fresh by (simp add: live_addrs_hash[OF inv])
  from bucket_add_inv[OF b nz refl this]
  have b': "bucket_inv ?h (bucket_add a node (allocs st ?h))" .
  show ?thesis
    by (rule registry_inv_bucket_update[OF inv b' alloc_add_ok(1)[OF inv nz ok]
          alloc_add_ok(2)[OF inv nz ok]])
qed

lemma alloc_add_returns:
  assumes "registry_inv st" "node \<noteq> 0"
  shows "\<exists>st'. alloc_add st a node = Inr st'"
  unfolding alloc_add_eq[OF assms(1)] Let_def using assms(2) by simp

lemma registry_inv_mutex [simp]: "registry_inv (st\<lparr>alloc_mutex := x\<rparr>) = registry_inv st"
  by (simp add: registry_inv_def)

lemma registry_inv_calls [simp]: "registry_inv (st\<lparr>libc_calls := x\<rparr>) = registry_inv st"
  by (simp add: registry_inv_def)

lemma live_records_mutex [simp]: "live_records (st\<lparr>alloc_mutex := x\<rparr>) = live_records st"
  by (simp add: live_records_def)

lemma live_records_calls [simp]: "live_records (st\<lparr>libc_calls := x\<rparr>) = live_records st"
  by (simp add: live_records_def)

lemma live_addrs_mutex [simp]: "live_addrs (st\<lparr>alloc_mutex := x\<rparr>) = live_addrs st"
  by (simp add: live_addrs_def)

lemma live_addrs_calls [simp]: "live_addrs (st\<lparr>libc_calls := x\<rparr>) = live_addrs st"
  by (simp add: live_addrs_def)

subsection \<open>The invariant holds along every run\<close>

lemma registry_inv_init: "registry_inv init_state"
  by (simp add: registry_inv_def bucket_inv_def bucket_addrs_def bucket_records_def
      init_state_def zero_alloc_def)

lemma registry_inv_no_duplicates:
  assumes "registry_inv st"
  shows "no_duplicates st"
proof -
  have h: "ptr_hash a = i" if "i < MAP_BUF_SIZE" "a \<in> set (bucket_addrs (allocs st i))" for a i
    using assms that by (auto simp: registry_inv_def bucket_inv_def)
  have d: "distinct (bucket_addrs (allocs st i))" if "i < MAP_BUF_SIZE" for i
    using assms that by (simp add: registry_inv_def bucket_inv_def)
  have "set (bucket_addrs (allocs st i)) \<inter> set (bucket_addrs (allocs st j)) = {}"
    if "i < MAP_BUF_SIZE" "j < MAP_BUF_SIZE" "i \<noteq> j" for i j
    using h[OF that(1)] h[OF that(2)] that(3) by blast
  with d show ?thesis unfolding no_duplicates_def by blast
qed

lemma malloc_inv:
  assumes inv: "registry_inv st" and fresh: "res \<notin> live_addrs st"
    and ok: "memdebug_malloc st n ln fn fl res node = Inr (st', r)"
  shows "registry_inv st' \<and> \<not> alloc_mutex st'"
proof -
  let ?rec = "\<lparr>ptr = res, size_bytes = n, line = ln, func = fn, file_name = fl\<rparr>"
  let ?st1 = "st\<lparr>libc_calls := libc_calls st @ [Malloc n res], alloc_mutex := True\<rparr>"
  from ok have nz: "res \<noteq> 0"
    by (auto simp: memdebug_malloc_def Let_def split: if_splits)
  from ok nz obtain st2 where add: "alloc_add ?st1 ?rec node = Inr st2" and st': "st' = mutex_unlock st2"
    by (auto simp: memdebug_malloc_def Let_def mutex_lock_def split: if_splits sum.splits)
  have inv1: "registry_inv ?st1" using inv by simp
  have "ptr ?rec \<notin> live_addrs ?st1" using fresh by simp
  from alloc_add_inv[OF inv1 _ this add] nz have "registry_inv st2" by simp
  then show ?thesis by (simp add: st' mutex_unlock_def)
qed

lemma realloc_inv:
  assumes inv: "registry_inv st" and fresh: "res \<notin> live_addrs st - {p}"
    and ok: "memdebug_realloc st p n ln fn fl res node = Inr (st', r)"
  shows "registry_inv st' \<and> \<not> alloc_mutex st'"
proof -
  let ?rec = "\<lparr>ptr = res, size_bytes = n, line = ln, func = fn, file_name = fl\<rparr>"
  let ?st1 = "st\<lparr>alloc_mutex := True\<rparr>"
  let ?st2 = "fst (alloc_remove ?st1 p)"
  let ?st3 = "?st2\<lparr>libc_calls := libc_calls ?st2 @ [Realloc p n res]\<rparr>"
  from ok have nz: "res \<noteq> 0"
    by (auto simp: memdebug_realloc_def Let_def split_beta split: if_splits sum.splits)
  from ok nz obtain st4 where add: "alloc_add ?st3 ?rec node = Inr st4" and st': "st' = mutex_unlock st4"
    by (auto simp: memdebug_realloc_def Let_def mutex_lock_def split_beta split: if_splits sum.splits)
  have inv1: "registry_inv ?st1" using inv by simp
  have inv3: "registry_inv ?st3" using alloc_remove_inv[OF inv1] by simp
  have "ptr ?rec \<notin> live_addrs ?st3"
    using fresh alloc_remove_live_addrs[OF inv1, of p] by simp
  from alloc_add_inv[OF inv3 _ this add] nz have "registry_inv st4" by simp
  then show ?thesis by (simp add: st' mutex_unlock_def)
qed

lemma free_inv:
  assumes inv: "registry_inv st" and ok: "memdebug_free st p ln fn fl = Inr st'"
  shows "registry_inv st' \<and> \<not> alloc_mutex st'"
proof -
  let ?st1 = "st\<lparr>alloc_mutex := True\<rparr>"
  let ?st2 = "fst (alloc_remove ?st1 p)"
  from ok have st': "st' = (mutex_unlock ?st2)\<lparr>libc_calls := libc_calls (mutex_unlock ?st2) @ [Free p]\<rparr>"
    by (auto simp: memdebug_free_def Let_def mutex_lock_def split_beta split: if_splits sum.splits)
  have inv1: "registry_inv ?st1" using inv by simp
  from alloc_remove_inv[OF inv1] show ?thesis by (simp add: st' mutex_unlock_def)
qed

lemma print_heap_inv:
  assumes inv: "registry_inv st" and ok: "print_heap st = Inr (st', d)"
  shows "registry_inv st' \<and> \<not> alloc_mutex st'"
proof -
  let ?st1 = "st\<lparr>alloc_mutex := True\<rparr>"
  from ok have st': "st' = mutex_unlock (ensure_init ?st1)"
    by (auto simp: print_heap_def Let_def mutex_lock_def split: if_splits sum.splits)
  have inv1: "registry_inv ?st1" using inv by simp
  have "registry_inv (ensure_init ?st1)"
    unfolding ensure_init_inv[OF inv1]
    by (rule registry_inv_same_allocs[OF inv1]) simp_all
  then show ?thesis by (simp add: st' mutex_unlock_def)
qed

lemma reachable_inv: "reachable st \<Longrightarrow> registry_inv st \<and> \<not> alloc_mutex st"
proof (induction rule: reachable.induct)
  case start
  show ?case by (simp add: registry_inv_init) (simp add: init_state_def)
next
  case (allocate st res n ln fn fl node st' r)
  then show ?case using malloc_inv by blast
next
  case (resize st res p n ln fn fl node st' r)
  then show ?case using realloc_inv by blast
next
  case (release st p ln fn fl st')
  then show ?case using free_inv by blast
next
  case (dump st st' d)
  then show ?case using print_heap_inv by blast
qed

subsection \<open>The live count along runs without a null argument\<close>

lemma live_records_init: "live_records init_state = {}"
  by (simp add: live_records_def bucket_records_def init_state_def zero_alloc_def)

lemma finite_live_addrs: "finite (live_addrs st)"
  by (simp add: live_addrs_def live_records_def)

lemma malloc_effect:
  assumes inv: "registry_inv st"
    and ok: "memdebug_malloc st n ln fn fl res node = Inr (st', r)"
  shows "live_addrs st' = insert res (live_addrs st) \<and> num_allocs st' = num_allocs st + 1"
proof -
  let ?rec = "\<lparr>ptr = res, size_bytes = n, line = ln, func = fn, file_name = fl\<rparr>"
  let ?st1 = "st\<lparr>libc_calls := libc_calls st @ [Malloc n res], alloc_mutex := True\<rparr>"
  from ok have nz: "res \<noteq> 0"
    by (auto simp: memdebug_malloc_def Let_def split: if_splits)
  from ok nz obtain st2 where add: "alloc_add ?st1 ?rec node = Inr st2" and st': "st' = mutex_unlock st2"
    by (auto simp: memdebug_malloc_def Let_def mutex_lock_def split: if_splits sum.splits)
  have inv1: "registry_inv ?st1" using inv by simp
  have rnz: "ptr ?rec \<noteq> 0" using nz by simp
  from alloc_add_ok(3,5)[OF inv1 rnz add] show ?thesis
    by (simp add: st' mutex_unlock_def live_addrs_def)
qed

lemma free_effect:
  assumes inv: "registry_inv st" and nz: "p \<noteq> 0"
    and ok: "memdebug_free st p ln fn fl = Inr st'"
  shows "p \<in> live_addrs st \<and> live_addrs st' = live_addrs st - {p} \<and>
         num_allocs st' = num_allocs st - 1"
proof -
  let ?st1 = "st\<lparr>alloc_mutex := True\<rparr>"
  let ?st2 = "fst (alloc_remove ?st1 p)"
  from ok nz have removed: "snd (alloc_remove ?st1 p)"
    by (auto simp: memdebug_free_def Let_def mutex_lock_def split_beta split: if_splits sum.splits)
  from ok have st': "st' = (mutex_unlock ?st2)\<lparr>libc_calls := libc_calls (mutex_unlock ?st2) @ [Free p]\<rparr>"
    by (auto simp: memdebug_free_def Let_def mutex_lock_def split_beta split: if_splits sum.splits)
  have inv1: "registry_inv ?st1" using inv by simp
  from alloc_remove_found[OF inv1 nz] removed have live: "p \<in> live_addrs st" by simp
  from alloc_remove_live_addrs[OF inv1, of p] alloc_remove_num[OF inv1, of p] removed live
  show ?thesis by (simp add: st' mutex_unlock_def)
qed

lemma realloc_effect:
  assumes inv: "registry_inv st" and nz: "p \<noteq> 0"
    and ok: "memdebug_realloc st p n ln fn fl res node = Inr (st', r)"
  shows "p \<in> live_addrs st \<and> live_addrs st' = insert res (live_addrs st - {p}) \<and>
         num_allocs st' = num_allocs st"
proof -
  let ?rec = "\<lparr>ptr = res, size_bytes = n, line = ln, func = fn, file_name = fl\<rparr>"
  let ?st1 = "st\<lparr>alloc_mutex := True\<rparr>"
  let ?st2 = "fst (alloc_remove ?st1 p)"
  let ?st3 = "?st2\<lparr>libc_calls := libc_calls ?st2 @ [Realloc p n res]\<rparr>"
  from ok nz have removed: "snd (alloc_remove ?st1 p)"
    by (auto simp: memdebug_realloc_def Let_def mutex_lock_def split_beta split: if_splits sum.splits)
  from ok have rnz: "res \<noteq> 0"
    by (auto simp: memdebug_realloc_def Let_def split_beta split: if_splits sum.splits)
  from ok rnz obtain st4 where add: "alloc_add ?st3 ?rec node = Inr st4" and st': "st' = mutex_unlock st4"
    by (auto simp: memdebug_realloc_def Let_def mutex_lock_def split_beta split: if_splits sum.splits)
  have inv1: "registry_inv ?st1" using inv by simp
  have inv3: "registry_inv ?st3" using alloc_remove_inv[OF inv1] by simp
  have rnz': "ptr ?rec \<noteq> 0" using rnz by simp
  from alloc_remove_found[OF inv1 nz] removed have live: "p \<in> live_addrs st" by simp
  from alloc_add_ok(3,5)[OF inv3 rnz' add] alloc_remove_live_addrs[OF inv1, of p]
    alloc_remove_num[OF inv1, of p] removed live
  show ?thesis by (simp add: st' mutex_unlock_def live_addrs_def)
qed

lemma print_heap_effect:
  assumes inv: "registry_inv st" and ok: "print_heap st = Inr (st', d)"
  shows "live_addrs st' = live_addrs st \<and> num_allocs st' = num_allocs st"
proof -
  let ?st1 = "st\<lparr>alloc_mutex := True\<rparr>"
  from ok have st': "st' = mutex_unlock (ensure_init ?st1)"
    by (auto simp: print_heap_def Let_def mutex_lock_def split: if_splits sum.splits)
  have inv1: "registry_inv ?st1" using inv by simp
  show ?thesis
    unfolding st' ensure_init_inv[OF inv1]
    by (simp add: mutex_unlock_def live_addrs_def live_records_def)
qed

lemma count_inv_insert:
  assumes "count_inv st" "x \<notin> live_addrs st" "live_addrs st' = insert x (live_addrs st)"
    "num_allocs st' = num_allocs st + 1"
  shows "count_inv st'"
  using assms finite_live_addrs[of st] by (simp add: count_inv_def)

lemma count_inv_remove:
  assumes "count_inv st" "x \<in> live_addrs st" "live_addrs st' = live_addrs st - {x}"
    "num_allocs st' = num_allocs st - 1"
  shows "count_inv st'"
proof -
  have "card (live_addrs st) \<ge> 1"
    using assms(2) finite_live_addrs[of st] by (simp add: Suc_le_eq card_gt_0_iff) blast
  then have "(of_nat (card (live_addrs st) - 1) :: size_t) = of_nat (card (live_addrs st)) - 1"
    by simp
  with assms finite_live_addrs[of st] show ?thesis by (simp add: count_inv_def)
qed

lemma count_inv_replace:
  assumes "count_inv st" "p \<in> live_addrs st" "x \<notin> live_addrs st - {p}"
    "live_addrs st' = insert x (live_addrs st - {p})" "num_allocs st' = num_allocs st"
  shows "count_inv st'"
proof -
  have "card (insert x (live_addrs st - {p})) = card (live_addrs st)"
    using assms(2,3) finite_live_addrs[of st]
    by (metis card.remove finite_Diff card_insert_disjoint)
  with assms show ?thesis by (simp add: count_inv_def)
qed

lemma live_count_nonnull_runs:
  "reachable_nonnull st \<Longrightarrow> registry_inv st \<and> count_inv st"
proof (induction rule: reachable_nonnull.induct)
  case start_nn
  show ?case
    by (simp add: registry_inv_init count_inv_def live_addrs_def live_records_init)
       (simp add: init_state_def)
next
  case (allocate_nn st res n ln fn fl node st' r)
  with malloc_inv[of st res n ln fn fl node st' r] malloc_effect[of st n ln fn fl res node st' r]
  show ?case using count_inv_insert by blast
next
  case (resize_nn st p res n ln fn fl node st' r)
  with realloc_inv[of st res p n ln fn fl node st' r] realloc_effect[of st p n ln fn fl res node st' r]
  show ?case using count_inv_replace by blast
next
  case (release_nn st p ln fn fl st')
  with free_inv[of st p ln fn fl st'] free_effect[of st p ln fn fl st']
  show ?case using count_inv_remove by blast
next
  case (dump_nn st st' d)
  with print_heap_inv[of st st' d] print_heap_effect[of st st' d]
  show ?case by (simp add: count_inv_def)
qed

subsection \<open>The heap dump\<close>

lemma dump_chain_all: "\<forall>m\<in>snd ` set c. ptr m \<noteq> 0 \<Longrightarrow> dump_chain c = map snd c"
  by (induction c) auto

lemma dump_bucket_records:
  assumes "bucket_inv i b"
  shows "dump_bucket b = bucket_records b"
proof -
  have "dump_chain (nextp b) = map snd (nextp b)"
    using assms by (intro dump_chain_all) (simp add: bucket_inv_def)
  then show ?thesis
    by (simp add: dump_bucket_def bucket_records_inv[OF assms])
qed

lemma heap_records_live:
  assumes "registry_inv st"
  shows "set (heap_records st) = live_records st"
proof -
  have "dump_bucket (allocs st i) = bucket_records (allocs st i)" if "i < MAP_BUF_SIZE" for i
    using assms that by (intro dump_bucket_records[of i]) (simp add: registry_inv_def)
  then show ?thesis
    by (auto simp: heap_records_def live_records_def)
qed

lemma print_heap_unlocked:
  assumes "registry_inv st" "\<not> alloc_mutex st"
  shows "print_heap st =
           Inr (st\<lparr>memallocs_initialized := True\<rparr>,
                HeapDump (heap_records st) (foldl (\<lambda>t m. t + size_bytes m) 0 (heap_records st))
                  (num_allocs st))"
proof -
  have "registry_inv (st\<lparr>alloc_mutex := True\<rparr>)" using assms(1) by simp
  from ensure_init_inv[OF this] assms(2) show ?thesis
    by (simp add: print_heap_def mutex_lock_def mutex_unlock_def Let_def heap_records_def)
qed

lemma allocate_out_of_memory:
  assumes "registry_inv st" "\<not> alloc_mutex st"
  shows "memdebug_malloc st n ln fn fl 0 node =
           Inl (Exit OOM_EXIT_STATUS
                  [OomMessage ln fn fl n,
                   HeapDump (heap_records st) (foldl (\<lambda>t m. t + size_bytes m) 0 (heap_records st))
                     (num_allocs st)])"
proof -
  let ?st = "st\<lparr>libc_calls := libc_calls st @ [Malloc n 0]\<rparr>"
  have "registry_inv ?st" "\<not> alloc_mutex ?st" using assms by simp_all
  from print_heap_unlocked[OF this] show ?thesis
    by (simp add: memdebug_malloc_def OOM_def heap_records_def)
qed

subsection \<open>The example states\<close>

lemma ptr_hash_8: "ptr_hash 8 = 257"
  by (simp add: ptr_hash_eq)

lemma ptr_hash_97032: "ptr_hash 97032 = 257"
  by (simp add: ptr_hash_eq)

lemma malloc_one: "memdebug_malloc init_state 1 26 ''main'' ''test.c'' 8 0 = Inr (st_one, 8)"
  by (simp add: memdebug_malloc_def mutex_lock_def mutex_unlock_def alloc_add_def ensure_init_def
      memallocs_init_def Let_def ptr_hash_8 init_state_def zero_alloc_def st_one_def rec_one_def
      MAP_BUF_SIZE_def cong: if_cong)

lemma reachable_st_one: "reachable st_one"
  by (rule reachable.allocate[OF reachable.start _ malloc_one])
     (simp add: live_addrs_def live_records_init)

lemma live_addrs_st_one: "live_addrs st_one = {8}"
proof -
  have "live_records st_one = insert rec_one (live_records init_state)"
    by (rule live_records_insert[of 257 _ _ "\<lparr>alloc = rec_one, nextp = []\<rparr>"])
       (simp_all add: MAP_BUF_SIZE_def st_one_def init_state_def bucket_records_def zero_alloc_def
          rec_one_def)
  then show ?thesis by (simp add: live_addrs_def live_records_init rec_one_def)
qed

lemma malloc_two: "memdebug_malloc st_one 2 27 ''main'' ''test.c'' 97032 4096 = Inr (st_two, 97032)"
  by (simp add: memdebug_malloc_def mutex_lock_def mutex_unlock_def alloc_add_def ensure_init_def
      Let_def ptr_hash_97032 st_one_def st_two_def rec_one_def rec_two_def sizeof_MapMember_def)

lemma reachable_st_two: "reachable st_two"
  by (rule reachable.allocate[OF reachable_st_one _ malloc_two]) (simp add: live_addrs_st_one)

lemma free_null_st_one:
  "memdebug_free st_one 0 ln fn fl =
     Inr (st_one\<lparr>num_allocs := 0, libc_calls := [Malloc 1 8, Free 0]\<rparr>)"
  by (simp add: memdebug_free_def mutex_lock_def mutex_unlock_def alloc_remove_def ensure_init_def
      Let_def ptr_hash_null st_one_def zero_alloc_def fun_upd_idem)

lemma realloc_null_init:
  "memdebug_realloc init_state 0 10 27 ''main'' ''test.c'' 8 0 = Inr (st_null_resized, 8)"
  by (simp add: memdebug_realloc_def mutex_lock_def mutex_unlock_def alloc_remove_def
      alloc_add_def ensure_init_def memallocs_init_def Let_def ptr_hash_null ptr_hash_8
      init_state_def zero_alloc_def st_null_resized_def MAP_BUF_SIZE_def fun_upd_idem
      cong: if_cong)

section \<open>Growable array: lemmas\<close>

lemma length_block_of [simp]: "length (block_of contents n) = n"
  by (simp add: block_of_def)

lemma nth_block_of [simp]: "i < n \<Longrightarrow> block_of contents n ! i = contents i"
  by (simp add: block_of_def)

lemma find_loop_first:
  "i \<le> k \<Longrightarrow> k < n \<Longrightarrow> n \<le> length arr \<Longrightarrow> ptr_arr (arr ! k) = p \<Longrightarrow>
   (\<forall>j. i \<le> j \<and> j < k \<longrightarrow> ptr_arr (arr ! j) \<noteq> p) \<Longrightarrow>
   find_loop arr n p i = Inr (of_nat k)"
proof (induction arr n p i rule: find_loop.induct)
  case (1 arr n p i)
  show ?case
  proof (cases "i = k")
    case True
    with "1.prems" show ?thesis by (subst find_loop.simps) simp
  next
    case False
    with "1.prems" have lt: "i < k" "i < n" "i < length arr" "ptr_arr (arr ! i) \<noteq> p"
      by auto
    with "1.prems" have "find_loop arr n p (Suc i) = Inr (of_nat k)"
      by (intro "1.IH") auto
    with lt show ?thesis by (subst find_loop.simps) simp
  qed
qed

lemma find_loop_none:
  "n \<le> length arr \<Longrightarrow> (\<forall>j. i \<le> j \<and> j < n \<longrightarrow> ptr_arr (arr ! j) \<noteq> p) \<Longrightarrow>
   find_loop arr n p i = Inr MEM_FAIL_TO_FIND"
proof (induction arr n p i rule: find_loop.induct)
  case (1 arr n p i)
  show ?case
  proof (cases "i < n")
    case True
    with "1.prems" have a: "i < length arr" "ptr_arr (arr ! i) \<noteq> p" by auto
    with True "1.prems" have "find_loop arr n p (Suc i) = Inr MEM_FAIL_TO_FIND"
      by (intro "1.IH") auto
    with True a show ?thesis by (subst find_loop.simps) simp
  next
    case False
    then show ?thesis by (subst find_loop.simps) simp
  qed
qed

lemma first_or_absent: "(\<exists>i. first_index st p i) \<or> absent_arr st p"
proof (cases "absent_arr st p")
  case True
  then show ?thesis by simp
next
  case False
  let ?P = "\<lambda>i. i < unat (num_allocs_arr st) \<and> ptr_arr (allocs_arr st ! i) = p"
  from False obtain i0 where "?P i0" by (auto simp: absent_arr_def)
  then have "?P (LEAST i. ?P i)" by (rule LeastI)
  moreover have "\<forall>j<(LEAST i. ?P i). \<not> ?P j" using not_less_Least by blast
  ultimately have "first_index st p (LEAST i. ?P i)"
    unfolding first_index_def by (metis (no_types, lifting) less_trans)
  then show ?thesis by blast
qed

lemma alloc_find_index_first:
  assumes "unat (num_allocs_arr st) \<le> length (allocs_arr st)" "first_index st p i"
  shows "alloc_find_index st p = Inr (of_nat i)"
  unfolding alloc_find_index_def
  using assms by (intro find_loop_first) (auto simp: first_index_def)

lemma alloc_find_index_absent:
  assumes "unat (num_allocs_arr st) \<le> length (allocs_arr st)" "absent_arr st p"
  shows "alloc_find_index st p = Inr MEM_FAIL_TO_FIND"
  unfolding alloc_find_index_def
  using assms by (intro find_loop_none) (auto simp: absent_arr_def)

lemma unat_max: "unat (- 1 :: 64 word) = 18446744073709551615"
  by (simp add: unsigned_minus_1_eq_mask mask_eq_exp_minus_1)

lemma print_heap_loop_eq:
  "n \<le> length arr \<Longrightarrow> i \<le> n \<Longrightarrow>
   print_heap_loop arr n i =
     Inr (drop i (take n arr), foldr (\<lambda>m t. size_arr m + t) (drop i (take n arr)) 0)"
proof (induction arr n i rule: print_heap_loop.induct)
  case (1 arr n i)
  show ?case
  proof (cases "i < n")
    case True
    with "1.prems" have il: "i < length arr" by simp
    have ih: "print_heap_loop arr n (Suc i) =
        Inr (drop (Suc i) (take n arr), foldr (\<lambda>m t. size_arr m + t) (drop (Suc i) (take n arr)) 0)"
      using "1.IH"[OF True il] "1.prems" True by simp
    have d: "drop i (take n arr) = arr ! i # drop (Suc i) (take n arr)"
      using True il by (simp add: Cons_nth_drop_Suc[symmetric])
    show ?thesis
      by (subst print_heap_loop.simps) (simp add: True il ih d)
  next
    case False
    with "1.prems" show ?thesis by (subst print_heap_loop.simps) simp
  qed
qed

lemma resize_out_of_memory_arr:
  assumes bound: "unat (num_allocs_arr st) \<le> length (allocs_arr st)"
    and ul: "\<not> alloc_mutex_arr st"
    and live: "first_index st p i" "i \<noteq> 4294967295"
  shows "memdebug_realloc_arr st p n ln fl 0 =
           Inl (Exit_arr OOM_EXIT_STATUS
                  [OomMessage_arr ln fl n,
                   HeapDump_arr (take (unat (num_allocs_arr st)) (allocs_arr st))
                     (foldr (\<lambda>m t. size_arr m + t) (take (unat (num_allocs_arr st)) (allocs_arr st)) 0)
                     (num_allocs_arr st)])"
proof -
  let ?st1 = "st\<lparr>alloc_mutex_arr := True\<rparr>"
  have b1: "unat (num_allocs_arr ?st1) \<le> length (allocs_arr ?st1)" using bound by simp
  have f1: "first_index ?st1 p i" using live(1) by (simp add: first_index_def)
  have lt: "i < 2 ^ 64"
    using live(1) unsigned_less[of "num_allocs_arr st", where 'a = nat]
    by (simp add: first_index_def)
  have ne: "(of_nat i :: size_t) \<noteq> MEM_FAIL_TO_FIND"
  proof
    assume "(of_nat i :: size_t) = MEM_FAIL_TO_FIND"
    then have "unat (of_nat i :: size_t) = 4294967295" by (simp add: MEM_FAIL_TO_FIND_def)
    moreover have "unat (of_nat i :: size_t) = i" using lt by (intro of_nat_inverse[OF refl]) simp
    ultimately show False using live(2) by simp
  qed
  have ph: "print_heap_arr ?st1 =
      Inr (HeapDump_arr (take (unat (num_allocs_arr st)) (allocs_arr st))
             (foldr (\<lambda>m t. size_arr m + t) (take (unat (num_allocs_arr st)) (allocs_arr st)) 0)
             (num_allocs_arr st))"
    using print_heap_loop_eq[OF bound, of 0] by (simp add: print_heap_arr_def)
  from alloc_find_index_first[OF b1 f1] ne ul ph show ?thesis
    by (simp add: memdebug_realloc_arr_def mutex_lock_arr_def OOM_arr_def)
qed

lemma resize_tracked_arr:
  assumes bound: "unat (num_allocs_arr st) \<le> length (allocs_arr st)"
    and ul: "\<not> alloc_mutex_arr st"
    and live: "first_index st p i" "i \<noteq> 4294967295"
    and res: "res \<noteq> 0"
  shows "memdebug_realloc_arr st p n ln fl res =
           Inr (st\<lparr>allocs_arr := (allocs_arr st)
                   [i := \<lparr>ptr_arr = res, size_arr = n, line_arr = ln, file_arr = fl\<rparr>]\<rparr>, res)"
proof -
  let ?st1 = "st\<lparr>alloc_mutex_arr := True\<rparr>"
  have b1: "unat (num_allocs_arr ?st1) \<le> length (allocs_arr ?st1)" using bound by simp
  have f1: "first_index ?st1 p i" using live(1) by (simp add: first_index_def)
  have lt: "i < 2 ^ 64"
    using live(1) unsigned_less[of "num_allocs_arr st", where 'a = nat]
    by (simp add: first_index_def)
  have un: "unat (of_nat i :: size_t) = i" using lt by (intro of_nat_inverse[OF refl]) simp
  have ne: "(of_nat i :: size_t) \<noteq> MEM_FAIL_TO_FIND"
  proof
    assume "(of_nat i :: size_t) = MEM_FAIL_TO_FIND"
    then have "unat (of_nat i :: size_t) = 4294967295" by (simp add: MEM_FAIL_TO_FIND_def)
    with un show False using live(2) by simp
  qed
  have il: "i < length (allocs_arr st)" using live(1) bound by (simp add: first_index_def)
  from alloc_find_index_first[OF b1 f1] ne ul res un il show ?thesis
    by (simp add: memdebug_realloc_arr_def mutex_lock_arr_def mutex_unlock_arr_def
        alloc_update_arr_def store_arr_def)
qed

subsection \<open>The example states\<close>

lemma big_state_first: "first_index big_state 68719476736 4294967295"
proof -
  have "16 * (of_nat j + 1) \<noteq> (68719476736 :: 64 word)" if "j < 4294967295" for j :: nat
  proof -
    have "unat (of_nat (16 * (j + 1)) :: 64 word) = 16 * (j + 1)"
      using that by (intro of_nat_inverse[OF refl]) simp
    moreover have "unat (68719476736 :: 64 word) = 68719476736" by simp
    moreover have "16 * (j + 1) \<noteq> (68719476736::nat)" using that by simp
    ultimately have "(of_nat (16 * (j + 1)) :: 64 word) \<noteq> 68719476736" by metis
    then show ?thesis by simp
  qed
  then show ?thesis by (simp add: first_index_def big_state_def)
qed

lemma malloc_one_arr:
  "memdebug_malloc_arr init_state_arr 1 26 ''test.c'' 8 4096 cap fresh = Inr (st_one_arr fresh, 8)"
  by (simp add: memdebug_malloc_arr_def mutex_lock_arr_def mutex_unlock_arr_def alloc_push_arr_def
      store_arr_def init_state_arr_def st_one_arr_def rec_one_arr_def MEMDEBUG_START_NUM_ALLOCS_def Let_def)

lemma find_null_one_arr:
  "alloc_find_index (st_one_arr fresh\<lparr>alloc_mutex_arr := True\<rparr>) 0 = Inr MEM_FAIL_TO_FIND"
  by (rule alloc_find_index_absent) (simp_all add: st_one_arr_def absent_arr_def rec_one_arr_def)

lemma free_null_one_arr:
  "memdebug_free_arr (st_one_arr fresh) 0 ln fl = Inr ((st_one_arr fresh)\<lparr>num_allocs_arr := 0\<rparr>)"
proof -
  have "shift_loop (allocs_arr (st_one_arr fresh)) 0 4294967295 = Inr (allocs_arr (st_one_arr fresh))"
    by (subst shift_loop.simps) simp
  then show ?thesis
    using find_null_one_arr[of fresh]
    by (simp add: memdebug_free_arr_def mutex_lock_arr_def mutex_unlock_arr_def alloc_remove_arr_def
        MEM_FAIL_TO_FIND_def Let_def) (simp add: st_one_arr_def mutex_unlock_arr_def)
qed

lemma find_null_init_arr:
  "alloc_find_index (init_state_arr\<lparr>alloc_mutex_arr := True\<rparr>) 0 = Inr MEM_FAIL_TO_FIND"
  by (rule alloc_find_index_absent) (simp_all add: init_state_arr_def absent_arr_def)

lemma free_null_init_arr: "memdebug_free_arr init_state_arr 0 ln fl = Inl BadAccess"
proof -
  have "shift_loop [] 18446744073709551615 4294967295 = Inl BadAccess"
    by (subst shift_loop.simps) simp
  then show ?thesis
    using find_null_init_arr
    by (simp add: memdebug_free_arr_def mutex_lock_arr_def alloc_remove_arr_def
        MEM_FAIL_TO_FIND_def Let_def) (simp add: init_state_arr_def unat_max)
qed

lemma realloc_null_one_arr:
  "memdebug_realloc_arr (st_one_arr fresh) 0 10 ln fl 16 = Inl BadAccess"
  using find_null_one_arr[of fresh]
  by (simp add: memdebug_realloc_arr_def mutex_lock_arr_def alloc_update_arr_def store_arr_def
      MEM_FAIL_TO_FIND_def) (simp add: st_one_arr_def)

lemma malloc_first_block_null_arr:
  "memdebug_malloc_arr init_state_arr 1 26 ''test.c'' 8 0 cap fresh = Inl BadAccess"
  by (simp add: memdebug_malloc_arr_def mutex_lock_arr_def alloc_push_arr_def
      store_arr_def init_state_arr_def MEMDEBUG_START_NUM_ALLOCS_def Let_def)

section \<open>The claims\<close>

subsection \<open>C1: the live count along a run\<close>

text \<open>
  C1 says that after any run without misuse the live count is the number of
  successful allocations, a resize of null counting as one, minus the number of
  successful releases. The code does not keep that when null is passed:
  \<open>alloc_remove\<close> takes the empty inline slot of bucket 0, whose \<^verbatim>\<open>alloc.ptr\<close> is
  null, for a record with the address null and decrements \<open>num_allocs\<close>. After
  \<^verbatim>\<open>p = realloc(NULL, 10); free(p);\<close>, one allocation and one release, the
  registry is empty and the count is \<open>2\<^sup>6\<^sup>4 - 1\<close>. Along runs that pass no null
  address the count is right (lemma \<open>live_count_nonnull_runs\<close>).
\<close>

theorem count_after_null_resize:
  "memdebug_realloc init_state 0 10 27 ''main'' ''test.c'' 8 0 = Inr (st_null_resized, 8) \<and>
   memdebug_free st_null_resized 8 28 ''main'' ''test.c'' = Inr st_null_released \<and>
   num_allocs st_null_released = 18446744073709551615 \<and>
   live_records st_null_released = {}"
proof -
  have a: "memdebug_free st_null_resized 8 28 ''main'' ''test.c'' = Inr st_null_released"
    by (simp add: memdebug_free_def mutex_lock_def mutex_unlock_def alloc_remove_def
        ensure_init_def Let_def ptr_hash_8 st_null_resized_def st_null_released_def)
  have "bucket_records (allocs st_null_released i) = []" for i
    by (simp add: st_null_released_def bucket_records_def zero_alloc_def)
  then have b: "live_records st_null_released = {}"
    by (simp add: live_records_def)
  have c: "num_allocs st_null_released = 18446744073709551615"
    by (simp add: st_null_released_def)
  from realloc_null_init a b c show ?thesis by simp
qed

subsection \<open>C2: releasing the null address\<close>

text \<open>
  C2 says that a release of the null address never faults and leaves the
  registry and its live count as they were. The wrappers do skip the panic for
  null, but both then remove a record all the same. In the hash map, as the
  very first call, \<^verbatim>\<open>free(NULL)\<close> wraps \<open>num_allocs\<close> around from 0 to
  \<open>2\<^sup>6\<^sup>4 - 1\<close>; with \<^verbatim>\<open>0x8\<close> live it takes the count from 1 to 0 and leaves the
  record in place. In the array, \<open>alloc_find_index\<close> answers \<open>MEM_FAIL_TO_FIND\<close> and
  \<open>alloc_remove_arr\<close> is called with it: with one live record the count drops to
  0 and the record is lost.
\<close>

theorem release_null_changes_count:
  "memdebug_free init_state 0 ln fn fl =
     Inr (init_state\<lparr>memallocs_initialized := True, num_allocs := 18446744073709551615,
                     libc_calls := [Free 0]\<rparr>) \<and>
   memdebug_free st_one 0 ln fn fl =
     Inr (st_one\<lparr>num_allocs := 0, libc_calls := [Malloc 1 8, Free 0]\<rparr>) \<and>
   memdebug_free_arr (st_one_arr fresh) 0 ln fl = Inr ((st_one_arr fresh)\<lparr>num_allocs_arr := 0\<rparr>)"
proof -
  have "memdebug_free init_state 0 ln fn fl =
     Inr (init_state\<lparr>memallocs_initialized := True, num_allocs := 18446744073709551615,
                     libc_calls := [Free 0]\<rparr>)"
    by (simp add: memdebug_free_def mutex_lock_def mutex_unlock_def alloc_remove_def
        ensure_init_def memallocs_init_def Let_def ptr_hash_null init_state_def zero_alloc_def
        MAP_BUF_SIZE_def fun_upd_idem cong: if_cong)
  with free_null_st_one free_null_one_arr show ?thesis by simp
qed

subsection \<open>C3: the invalid-pointer fault\<close>

text \<open>A non-null address that no stored record has is not found, whatever the state.\<close>

lemma alloc_remove_absent:
  assumes "p \<noteq> 0" "p \<notin> live_addrs st"
  shows "\<not> snd (alloc_remove st p)"
proof -
  let ?b = "allocs (ensure_init st) (ptr_hash p)"
  have "ptr (alloc ?b) \<noteq> p \<and> p \<notin> ptr ` snd ` set (nextp ?b)"
  proof (cases "memallocs_initialized st")
    case True
    have "p \<notin> ptr ` set (bucket_records (allocs st (ptr_hash p)))"
      using assms(2) ptr_hash_less[of p] by (auto simp: live_addrs_def live_records_def)
    with assms(1) True show ?thesis
      by (force simp: bucket_records_def ensure_init_def)
  next
    case False
    with assms(1) ptr_hash_less[of p] show ?thesis
      by (simp add: ensure_init_def memallocs_init_def)
  qed
  then show ?thesis
    using chain_remove_absent[of p "nextp ?b"] by (simp add: alloc_remove_def Let_def)
qed

text \<open>
  C3: for a non-null address without a live record, release and resize do not
  return: they print the panic message, which names the address and the call
  site, and exit with \<open>MEMPANIC_EXIT_STATUS\<close>, which is not \<open>OOM_EXIT_STATUS\<close>.
  The caller does not hold the lock.
\<close>

theorem invalid_pointer_fault:
  assumes "p \<noteq> 0" "p \<notin> live_addrs st" "\<not> alloc_mutex st"
  shows "memdebug_free st p ln fn fl =
           Inl (Exit MEMPANIC_EXIT_STATUS
                  [PanicMessage ''Tried to free() an invalid pointer.'' p ln fn fl]) \<and>
         memdebug_realloc st p n ln fn fl res node =
           Inl (Exit MEMPANIC_EXIT_STATUS
                  [PanicMessage ''Tried to realloc() an invalid pointer.'' p ln fn fl]) \<and>
         MEMPANIC_EXIT_STATUS \<noteq> OOM_EXIT_STATUS"
proof -
  have "p \<notin> live_addrs (st\<lparr>alloc_mutex := True\<rparr>)" using assms(2) by simp
  from alloc_remove_absent[OF assms(1) this] assms(1,3) show ?thesis
    by (simp add: memdebug_free_def memdebug_realloc_def mutex_lock_def mempanic_def split_beta
        MEMPANIC_EXIT_STATUS_def OOM_EXIT_STATUS_def)
qed

theorem invalid_pointer_fault_witness:
  "(1::ptr) \<noteq> 0 \<and> 1 \<notin> live_addrs st_one \<and> \<not> alloc_mutex st_one \<and>
   memdebug_free st_one 1 40 ''main'' ''test.c'' =
     Inl (Exit 10 [PanicMessage ''Tried to free() an invalid pointer.'' 1 40 ''main'' ''test.c''])"
proof -
  have a: "(1::ptr) \<noteq> 0" by simp
  have b: "1 \<notin> live_addrs st_one" by (simp add: live_addrs_st_one)
  have c: "\<not> alloc_mutex st_one" by (simp add: st_one_def)
  from invalid_pointer_fault[OF a b c, of 40 "''main''" "''test.c''"] a b c
  show ?thesis by (simp add: MEMPANIC_EXIT_STATUS_def)
qed

subsection \<open>C4: the out-of-memory fault\<close>

text \<open>
  What the out-of-memory fault should be is what \<open>memdebug_malloc\<close> does, which
  calls \<open>OOM\<close> before it takes the lock (lemma \<open>allocate_out_of_memory\<close>), and
  what the array does, whose \<open>print_heap_arr\<close> takes no lock (lemma
  \<open>resize_out_of_memory_arr\<close>).
\<close>

text \<open>
  C4 says that whenever the real allocator returns null for an allocate or a
  resize, the operation prints a diagnostic with a full heap dump and ends the
  process with the out-of-memory status. The resize of the hash map does not:
  \<open>memdebug_realloc\<close> holds \<open>alloc_mutex\<close> when it calls \<open>OOM\<close>, and \<open>print_heap\<close>
  locks it again, so the thread blocks for ever. Resizing the live block of
  \<open>st_one\<close> ends in \<open>Deadlock\<close>, and no resize at all exits with
  \<open>OOM_EXIT_STATUS\<close>.
\<close>

theorem resize_out_of_memory_deadlock:
  "memdebug_realloc st_one 8 n ln fn fl 0 node = Inl Deadlock \<and>
   (\<forall>st p n ln fn fl node out.
      memdebug_realloc st p n ln fn fl 0 node \<noteq> Inl (Exit OOM_EXIT_STATUS out))"
proof -
  have "memdebug_realloc st_one 8 n ln fn fl 0 node = Inl Deadlock"
    by (simp add: memdebug_realloc_def mutex_lock_def alloc_remove_def ensure_init_def
        Let_def ptr_hash_8 st_one_def rec_one_def OOM_def print_heap_def)
  moreover have "memdebug_realloc st p n ln fn fl 0 node \<noteq> Inl (Exit OOM_EXIT_STATUS out)"
    for st p n ln fn fl node out
    by (auto simp: memdebug_realloc_def mutex_lock_def alloc_remove_mutex OOM_def print_heap_def
        mempanic_def MEMPANIC_EXIT_STATUS_def OOM_EXIT_STATUS_def split_beta Let_def)
  ultimately show ?thesis by blast
qed

subsection \<open>C5: resizing the null address\<close>

text \<open>
  C5 says that a resize of the null address is an allocation: a record is
  registered and the live count goes up by one. In the hash map the record is
  registered, but \<open>alloc_remove\<close> has first been called with null and, the
  inline slot of bucket 0 being empty, has decremented the count: as the first
  call, \<^verbatim>\<open>realloc(NULL, 10)\<close> leaves the count at 0 where \<^verbatim>\<open>malloc(10)\<close> makes it
  1. In the array \<open>alloc_update_arr\<close> stores the record at index
  \<open>MEM_FAIL_TO_FIND\<close>, outside the block, and the count is not touched.
\<close>

theorem resize_null_count_unchanged:
  "memdebug_realloc init_state 0 10 27 ''main'' ''test.c'' 8 0 = Inr (st_null_resized, 8) \<and>
   num_allocs st_null_resized = num_allocs init_state \<and>
   memdebug_malloc init_state 10 27 ''main'' ''test.c'' 8 0 =
     Inr (st_null_resized\<lparr>num_allocs := 1, libc_calls := [Malloc 10 8]\<rparr>, 8) \<and>
   memdebug_realloc_arr (st_one_arr fresh) 0 10 ln fl 16 = Inl BadAccess"
proof -
  note a = realloc_null_init
  have b: "num_allocs st_null_resized = num_allocs init_state"
    by (simp add: st_null_resized_def init_state_def)
  have c: "memdebug_malloc init_state 10 27 ''main'' ''test.c'' 8 0 =
     Inr (st_null_resized\<lparr>num_allocs := 1, libc_calls := [Malloc 10 8]\<rparr>, 8)"
    by (simp add: memdebug_malloc_def mutex_lock_def mutex_unlock_def alloc_add_def
        ensure_init_def memallocs_init_def Let_def ptr_hash_8 init_state_def zero_alloc_def
        st_null_resized_def MAP_BUF_SIZE_def cong: if_cong)
  from a b c realloc_null_one_arr show ?thesis by simp
qed

subsection \<open>C6: resizing a tracked address\<close>

text \<open>
  What the resize of a tracked address should do is what the hash map does: in
  a well-formed hash map whose lock is free, the resize of a live address \<open>a\<close>
  to size \<open>n2\<close>, the real \<^verbatim>\<open>realloc\<close> returning \<open>res\<close>, returns \<open>res\<close> and leaves
  the live count as it was; afterwards \<open>res\<close> has a live record of size \<open>n2\<close>,
  and \<open>a\<close>, when it is not \<open>res\<close>, has none.
\<close>

lemma resize_tracked:
  assumes inv: "registry_inv st" and unlocked: "\<not> alloc_mutex st"
    and nz: "a \<noteq> 0" and live: "a \<in> live_addrs st"
    and res: "res \<noteq> 0" and node: "node \<noteq> 0"
  shows "\<exists>st'. memdebug_realloc st a n2 ln fn fl res node = Inr (st', res) \<and>
           num_allocs st' = num_allocs st \<and>
           (\<exists>m\<in>live_records st'. ptr m = res \<and> size_bytes m = n2) \<and>
           (a \<noteq> res \<longrightarrow> a \<notin> live_addrs st')"
proof -
  let ?st1 = "st\<lparr>alloc_mutex := True\<rparr>"
  let ?st2 = "fst (alloc_remove ?st1 a)"
  let ?st3 = "?st2\<lparr>libc_calls := libc_calls ?st2 @ [Realloc a n2 res]\<rparr>"
  let ?rec = "\<lparr>ptr = res, size_bytes = n2, line = ln, func = fn, file_name = fl\<rparr>"
  have inv1: "registry_inv ?st1" using inv by simp
  have removed: "snd (alloc_remove ?st1 a)"
    using alloc_remove_found[OF inv1 nz] live by simp
  have inv3: "registry_inv ?st3" using alloc_remove_inv[OF inv1] by simp
  obtain st4 where add: "alloc_add ?st3 ?rec node = Inr st4"
    using alloc_add_returns[OF inv3 node] by blast
  have rnz: "ptr ?rec \<noteq> 0" using res by simp
  note facts = alloc_add_ok[OF inv3 rnz add]
  have run: "memdebug_realloc st a n2 ln fn fl res node = Inr (mutex_unlock st4, res)"
    using unlocked removed res add
    by (simp add: memdebug_realloc_def mutex_lock_def split_beta)
  have num: "num_allocs (mutex_unlock st4) = num_allocs st"
    using facts(3) alloc_remove_num[OF inv1, of a] removed by (simp add: mutex_unlock_def)
  have recs: "live_records (mutex_unlock st4) = insert ?rec (live_records ?st2)"
    using facts(5) by (simp add: mutex_unlock_def)
  have new: "\<exists>m\<in>live_records (mutex_unlock st4). ptr m = res \<and> size_bytes m = n2"
    unfolding recs by (rule bexI[of _ ?rec]) simp_all
  have "live_addrs (mutex_unlock st4) = insert res (live_addrs st - {a})"
    using recs alloc_remove_live_addrs[OF inv1, of a] by (simp add: live_addrs_def)
  then have old: "a \<noteq> res \<longrightarrow> a \<notin> live_addrs (mutex_unlock st4)" by auto
  from run num new old show ?thesis by blast
qed

lemma resize_tracked_example:
  "registry_inv st_one \<and> \<not> alloc_mutex st_one \<and> 8 \<in> live_addrs st_one \<and>
   (\<exists>st'. memdebug_realloc st_one 8 10 27 ''main'' ''test.c'' 16 1 = Inr (st', 16) \<and>
          num_allocs st' = num_allocs st_one \<and>
          (\<exists>m\<in>live_records st'. ptr m = 16 \<and> size_bytes m = 10) \<and>
          8 \<notin> live_addrs st')"
proof -
  have inv: "registry_inv st_one" using reachable_inv[OF reachable_st_one] by simp
  have ul: "\<not> alloc_mutex st_one" by (simp add: st_one_def)
  have live: "8 \<in> live_addrs st_one" by (simp add: live_addrs_st_one)
  from resize_tracked[OF inv ul _ live, of 16 1 10 27 "''main''" "''test.c''"] inv ul live
  show ?thesis by simp
qed

text \<open>
  With a real allocator that does not return an address that is live, the
  record of \<open>res\<close> is also the one a later release or resize finds, and \<open>a\<close> is
  found no more.
\<close>

lemma resize_tracked_resolves:
  assumes inv: "registry_inv st" and unlocked: "\<not> alloc_mutex st"
    and nz: "a \<noteq> 0" and live: "a \<in> live_addrs st"
    and res: "res \<noteq> 0" and node: "node \<noteq> 0"
    and fresh: "res \<notin> live_addrs st - {a}"
  shows "\<exists>st'. memdebug_realloc st a n2 ln fn fl res node = Inr (st', res) \<and>
           num_allocs st' = num_allocs st \<and>
           snd (alloc_remove st' res) \<and>
           (a \<noteq> res \<longrightarrow> \<not> snd (alloc_remove st' a))"
proof -
  from resize_tracked[OF inv unlocked nz live res node, of n2 ln fn fl]
  obtain st' where run: "memdebug_realloc st a n2 ln fn fl res node = Inr (st', res)"
    and num: "num_allocs st' = num_allocs st"
    and new: "\<exists>m\<in>live_records st'. ptr m = res \<and> size_bytes m = n2"
    and old: "a \<noteq> res \<longrightarrow> a \<notin> live_addrs st'"
    by blast
  have inv': "registry_inv st'" using realloc_inv[OF inv fresh run] by simp
  from new have "res \<in> live_addrs st'" by (auto simp: live_addrs_def)
  then have found: "snd (alloc_remove st' res)"
    using alloc_remove_found[OF inv' res] by simp
  have gone: "a \<noteq> res \<longrightarrow> \<not> snd (alloc_remove st' a)"
    using alloc_remove_found[OF inv' nz] old by simp
  from run num found gone show ?thesis by blast
qed

text \<open>
  The array does the same in place for a record whose index is not
  \<open>MEM_FAIL_TO_FIND\<close> (lemma \<open>resize_tracked_arr\<close>).
\<close>

text \<open>
  C6 says that the resize of every live tracked address leaves the live count
  unchanged and that afterwards the returned address resolves and the old one
  does not. The array does not do that for the record at index 4294967295:
  this index is the value \<open>MEM_FAIL_TO_FIND\<close> by which \<open>alloc_find_index\<close> says
  that it found nothing, so \<open>memdebug_realloc_arr\<close> takes the live address for
  an invalid one and ends the process through \<open>mempanic_arr\<close>. In \<open>big_state\<close>
  the address \<open>2\<^sup>3\<^sup>6\<close> is live at that index, and its resize never returns,
  while the resize of the address 16 at index 0 of the same state returns and
  updates the record in place.
\<close>

theorem resize_at_sentinel_index_panics:
  "4294967295 < unat (num_allocs_arr big_state) \<and>
   ptr_arr (allocs_arr big_state ! 4294967295) = 68719476736 \<and>
   memdebug_realloc_arr big_state 68719476736 n ln fl res =
     Inl (Exit_arr MEMPANIC_EXIT_STATUS
            [PanicMessage_arr ''Tried to realloc() an invalid pointer.'' 68719476736 ln fl]) \<and>
   ptr_arr (allocs_arr big_state ! 0) = 16 \<and>
   memdebug_realloc_arr big_state 16 n ln fl 8 =
     Inr (big_state\<lparr>allocs_arr := (allocs_arr big_state)
            [0 := \<lparr>ptr_arr = 8, size_arr = n, line_arr = ln, file_arr = fl\<rparr>]\<rparr>, 8)"
proof -
  let ?st1 = "big_state\<lparr>alloc_mutex_arr := True\<rparr>"
  have b1: "unat (num_allocs_arr ?st1) \<le> length (allocs_arr ?st1)"
    by (simp add: big_state_def)
  have f1: "first_index ?st1 68719476736 4294967295"
    using big_state_first by (simp add: first_index_def)
  have "alloc_find_index ?st1 68719476736 = Inr (of_nat 4294967295)"
    by (rule alloc_find_index_first[OF b1 f1])
  then have found: "alloc_find_index ?st1 68719476736 = Inr MEM_FAIL_TO_FIND"
    by (simp add: MEM_FAIL_TO_FIND_def)
  have ul: "\<not> alloc_mutex_arr big_state" by (simp add: big_state_def)
  have run: "memdebug_realloc_arr big_state 68719476736 n ln fl res =
     Inl (Exit_arr MEMPANIC_EXIT_STATUS
            [PanicMessage_arr ''Tried to realloc() an invalid pointer.'' 68719476736 ln fl])"
    using found ul by (simp add: memdebug_realloc_arr_def mutex_lock_arr_def mempanic_arr_def)
  have at: "4294967295 < unat (num_allocs_arr big_state) \<and>
        ptr_arr (allocs_arr big_state ! 4294967295) = 68719476736"
    using big_state_first by (simp add: first_index_def)
  have b0: "unat (num_allocs_arr big_state) \<le> length (allocs_arr big_state)"
    by (simp add: big_state_def)
  have f0: "first_index big_state 16 0" by (simp add: first_index_def big_state_def)
  have p0: "ptr_arr (allocs_arr big_state ! 0) = 16" using f0 by (simp add: first_index_def)
  have other: "memdebug_realloc_arr big_state 16 n ln fl 8 =
     Inr (big_state\<lparr>allocs_arr := (allocs_arr big_state)
            [0 := \<lparr>ptr_arr = 8, size_arr = n, line_arr = ln, file_arr = fl\<rparr>]\<rparr>, 8)"
    by (rule resize_tracked_arr[OF b0 ul f0]) simp_all
  from at run p0 other show ?thesis by simp
qed

subsection \<open>C7: the remove operation of the registry\<close>

text \<open>
  What the remove operation should do is what it does for every non-null
  address: in a well-formed registry and for a non-null address \<open>a\<close>,
  \<open>alloc_remove\<close> returns true exactly when a live record has the address \<open>a\<close>;
  then the count is decremented and \<open>a\<close> is live no more; when it returns false
  nothing changes but the flag \<open>memallocs_initialized\<close>. A match in the inline
  slot without a chain clears the slot; with a chain, the head node is copied
  into the slot and its storage passed to \<^verbatim>\<open>free\<close>; a match in a chained node
  unlinks that node and passes its storage to \<^verbatim>\<open>free\<close>.
\<close>

lemma registry_remove:
  assumes inv: "registry_inv st" and nz: "a \<noteq> 0"
  shows "(snd (alloc_remove st a) \<longleftrightarrow> (\<exists>m\<in>live_records st. ptr m = a)) \<and>
         (snd (alloc_remove st a) \<longrightarrow>
            num_allocs (fst (alloc_remove st a)) = num_allocs st - 1 \<and>
            live_addrs (fst (alloc_remove st a)) = live_addrs st - {a}) \<and>
         (\<not> snd (alloc_remove st a) \<longrightarrow>
            fst (alloc_remove st a) = st\<lparr>memallocs_initialized := True\<rparr>) \<and>
         (ptr (alloc (allocs st (ptr_hash a))) = a \<and> nextp (allocs st (ptr_hash a)) = [] \<longrightarrow>
            allocs (fst (alloc_remove st a)) =
              (allocs st)(ptr_hash a :=
                 (allocs st (ptr_hash a))\<lparr>alloc := (alloc (allocs st (ptr_hash a)))\<lparr>ptr := 0\<rparr>,
                                           nextp := []\<rparr>) \<and>
            libc_calls (fst (alloc_remove st a)) = libc_calls st) \<and>
         (\<forall>x m rest. ptr (alloc (allocs st (ptr_hash a))) = a \<and>
                      nextp (allocs st (ptr_hash a)) = (x, m) # rest \<longrightarrow>
            allocs (fst (alloc_remove st a)) = (allocs st)(ptr_hash a := \<lparr>alloc = m, nextp = rest\<rparr>) \<and>
            libc_calls (fst (alloc_remove st a)) = libc_calls st @ [Free x]) \<and>
         (\<forall>pre x m post. ptr (alloc (allocs st (ptr_hash a))) \<noteq> a \<and>
                          nextp (allocs st (ptr_hash a)) = pre @ (x, m) # post \<and>
                          ptr m = a \<and> a \<notin> ptr ` snd ` set pre \<longrightarrow>
            allocs (fst (alloc_remove st a)) =
              (allocs st)(ptr_hash a := (allocs st (ptr_hash a))\<lparr>nextp := pre @ post\<rparr>) \<and>
            libc_calls (fst (alloc_remove st a)) = libc_calls st @ [Free x])"
proof -
  let ?b = "allocs st (ptr_hash a)"
  have c1: "snd (alloc_remove st a) \<longleftrightarrow> (\<exists>m\<in>live_records st. ptr m = a)"
    using alloc_remove_found[OF inv nz] by (auto simp: live_addrs_def)
  have c2: "snd (alloc_remove st a) \<longrightarrow>
            num_allocs (fst (alloc_remove st a)) = num_allocs st - 1 \<and>
            live_addrs (fst (alloc_remove st a)) = live_addrs st - {a}"
    using alloc_remove_num[OF inv, of a] alloc_remove_live_addrs[OF inv, of a] by simp
  have c3: "\<not> snd (alloc_remove st a) \<longrightarrow> fst (alloc_remove st a) = st\<lparr>memallocs_initialized := True\<rparr>"
    unfolding alloc_remove_eq[OF inv] Let_def by simp
  have c4: "ptr (alloc ?b) = a \<and> nextp ?b = [] \<longrightarrow>
            allocs (fst (alloc_remove st a)) =
              (allocs st)(ptr_hash a := ?b\<lparr>alloc := (alloc ?b)\<lparr>ptr := 0\<rparr>, nextp := []\<rparr>) \<and>
            libc_calls (fst (alloc_remove st a)) = libc_calls st"
    unfolding alloc_remove_eq[OF inv] Let_def by (simp add: bucket_remove_def)
  have c5: "\<forall>x m rest. ptr (alloc ?b) = a \<and> nextp ?b = (x, m) # rest \<longrightarrow>
            allocs (fst (alloc_remove st a)) = (allocs st)(ptr_hash a := \<lparr>alloc = m, nextp = rest\<rparr>) \<and>
            libc_calls (fst (alloc_remove st a)) = libc_calls st @ [Free x]"
    unfolding alloc_remove_eq[OF inv] Let_def by (simp add: bucket_remove_def)
  have c6: "allocs (fst (alloc_remove st a)) = (allocs st)(ptr_hash a := ?b\<lparr>nextp := pre @ post\<rparr>) \<and>
            libc_calls (fst (alloc_remove st a)) = libc_calls st @ [Free x]"
    if h: "ptr (alloc ?b) \<noteq> a" "nextp ?b = pre @ (x, m) # post" "ptr m = a" "a \<notin> ptr ` snd ` set pre"
    for pre x m post
  proof -
    have "chain_remove a (pre @ (x, m) # post) = (pre @ post, Some x)"
      using h(3,4) by (induction pre) auto
    with h show ?thesis
      unfolding alloc_remove_eq[OF inv] Let_def by (auto simp: bucket_remove_def)
  qed
  from c6 have c6': "\<forall>pre x m post. ptr (alloc ?b) \<noteq> a \<and> nextp ?b = pre @ (x, m) # post \<and>
                          ptr m = a \<and> a \<notin> ptr ` snd ` set pre \<longrightarrow>
            allocs (fst (alloc_remove st a)) = (allocs st)(ptr_hash a := ?b\<lparr>nextp := pre @ post\<rparr>) \<and>
            libc_calls (fst (alloc_remove st a)) = libc_calls st @ [Free x]"
    by blast
  show ?thesis
    apply (rule conjI[OF c1])
    apply (rule conjI[OF c2])
    apply (rule conjI[OF c3])
    apply (rule conjI[OF c4])
    apply (rule conjI[OF c5])
    apply (rule c6')
    done
qed

lemma registry_remove_examples:
  "registry_inv st_two \<and> registry_inv st_one \<and>
   snd (alloc_remove st_two 8) \<and>
   num_allocs (fst (alloc_remove st_two 8)) = 1 \<and>
   allocs (fst (alloc_remove st_two 8)) = (allocs st_two)(257 := \<lparr>alloc = rec_two, nextp = []\<rparr>) \<and>
   libc_calls (fst (alloc_remove st_two 8)) = libc_calls st_two @ [Free 4096] \<and>
   snd (alloc_remove st_two 97032) \<and>
   allocs (fst (alloc_remove st_two 97032)) = (allocs st_two)(257 := \<lparr>alloc = rec_one, nextp = []\<rparr>) \<and>
   libc_calls (fst (alloc_remove st_two 97032)) = libc_calls st_two @ [Free 4096] \<and>
   snd (alloc_remove st_one 8) \<and>
   allocs (fst (alloc_remove st_one 8)) =
     (allocs st_one)(257 := \<lparr>alloc = rec_one\<lparr>ptr := 0\<rparr>, nextp = []\<rparr>) \<and>
   libc_calls (fst (alloc_remove st_one 8)) = libc_calls st_one \<and>
   \<not> snd (alloc_remove st_one 16) \<and> fst (alloc_remove st_one 16) = st_one"
proof -
  have inv2: "registry_inv st_two" using reachable_inv[OF reachable_st_two] by simp
  have inv1: "registry_inv st_one" using reachable_inv[OF reachable_st_one] by simp
  have in2: "m \<in> live_records st_two" if "m \<in> set (bucket_records (allocs st_two 257))" for m
    using that unfolding live_records_def MAP_BUF_SIZE_def by (intro UN_I[of 257]) simp_all
  have b2: "bucket_records (allocs st_two 257) = [rec_one, rec_two]"
    by (simp add: st_two_def bucket_records_def rec_one_def rec_two_def)
  txt \<open>The inline slot, with a chain behind it.\<close>
  have live8: "\<exists>m\<in>live_records st_two. ptr m = 8"
    by (rule bexI[of _ rec_one]) (simp_all add: rec_one_def in2 b2)
  have s8: "ptr (alloc (allocs st_two (ptr_hash 8))) = 8 \<and>
            nextp (allocs st_two (ptr_hash 8)) = (4096, rec_two) # []"
    by (simp add: st_two_def ptr_hash_8 rec_one_def)
  have n2: "num_allocs st_two - 1 = 1" by (simp add: st_two_def)
  from registry_remove[OF inv2, of 8] live8 s8 n2
  have w1: "snd (alloc_remove st_two 8) \<and>
      num_allocs (fst (alloc_remove st_two 8)) = 1 \<and>
      allocs (fst (alloc_remove st_two 8)) = (allocs st_two)(257 := \<lparr>alloc = rec_two, nextp = []\<rparr>) \<and>
      libc_calls (fst (alloc_remove st_two 8)) = libc_calls st_two @ [Free 4096]"
    by (simp add: ptr_hash_8)
  txt \<open>A chained node.\<close>
  have live9: "\<exists>m\<in>live_records st_two. ptr m = 97032"
    by (rule bexI[of _ rec_two]) (simp_all add: rec_two_def in2 b2)
  have s9: "ptr (alloc (allocs st_two (ptr_hash 97032))) \<noteq> 97032 \<and>
            nextp (allocs st_two (ptr_hash 97032)) = [] @ (4096, rec_two) # [] \<and>
            ptr rec_two = 97032 \<and> 97032 \<notin> ptr ` snd ` set []"
    by (simp add: st_two_def ptr_hash_97032 rec_one_def rec_two_def)
  have nz9: "(97032::ptr) \<noteq> 0" by simp
  from registry_remove[OF inv2 nz9] live9
  have f9: "snd (alloc_remove st_two 97032)" by blast
  from registry_remove[OF inv2 nz9]
  have "\<forall>pre x m post. ptr (alloc (allocs st_two (ptr_hash 97032))) \<noteq> 97032 \<and>
          nextp (allocs st_two (ptr_hash 97032)) = pre @ (x, m) # post \<and>
          ptr m = 97032 \<and> 97032 \<notin> ptr ` snd ` set pre \<longrightarrow>
          allocs (fst (alloc_remove st_two 97032)) =
            (allocs st_two)(ptr_hash 97032 := (allocs st_two (ptr_hash 97032))\<lparr>nextp := pre @ post\<rparr>) \<and>
          libc_calls (fst (alloc_remove st_two 97032)) = libc_calls st_two @ [Free x]"
    by blast
  from this[rule_format, OF s9] f9
  have w2: "snd (alloc_remove st_two 97032) \<and>
      allocs (fst (alloc_remove st_two 97032)) = (allocs st_two)(257 := \<lparr>alloc = rec_one, nextp = []\<rparr>) \<and>
      libc_calls (fst (alloc_remove st_two 97032)) = libc_calls st_two @ [Free 4096]"
    by (simp add: ptr_hash_97032) (simp add: st_two_def)
  txt \<open>The inline slot without a chain.\<close>
  have "8 \<in> ptr ` live_records st_one"
    using live_addrs_st_one by (simp add: live_addrs_def)
  then have live1: "\<exists>m\<in>live_records st_one. ptr m = 8" by auto
  have s1: "ptr (alloc (allocs st_one (ptr_hash 8))) = 8 \<and> nextp (allocs st_one (ptr_hash 8)) = []"
    by (simp add: st_one_def ptr_hash_8 rec_one_def)
  from registry_remove[OF inv1, of 8] live1 s1
  have w3: "snd (alloc_remove st_one 8) \<and>
      allocs (fst (alloc_remove st_one 8)) =
        (allocs st_one)(257 := \<lparr>alloc = rec_one\<lparr>ptr := 0\<rparr>, nextp = []\<rparr>) \<and>
      libc_calls (fst (alloc_remove st_one 8)) = libc_calls st_one"
    by (simp add: ptr_hash_8) (simp add: st_one_def)
  txt \<open>An address without a record.\<close>
  have "16 \<notin> ptr ` live_records st_one"
    using live_addrs_st_one by (simp add: live_addrs_def)
  then have dead: "\<not> (\<exists>m\<in>live_records st_one. ptr m = 16)" by auto
  have nz16: "(16::ptr) \<noteq> 0" by simp
  from registry_remove[OF inv1 nz16] dead
  have w4: "\<not> snd (alloc_remove st_one 16) \<and> fst (alloc_remove st_one 16) = st_one"
    by (simp add: st_one_def)
  from inv1 inv2 w1 w2 w3 w4 show ?thesis by simp
qed

text \<open>
  C7 says that for every registry state and every address the remove operation
  returns true exactly when a record with that address existed, decrements the
  count exactly then, and has no effect when it returns false. For the null
  address, which \<open>memdebug_free\<close> and \<open>memdebug_realloc\<close> do pass on, the code
  does not: on the empty table, where \<open>print_heap\<close> enumerates nothing and the
  count is 0, \<open>alloc_remove\<close> takes the empty inline slot of bucket 0 for a
  match, returns true and wraps the count around to \<open>2\<^sup>6\<^sup>4 - 1\<close>. Once
  \<^verbatim>\<open>0x34900\<close> occupies that slot the same call returns false and changes nothing.
\<close>

theorem remove_null_matches_empty_slot:
  "alloc_remove init_state 0 =
     (init_state\<lparr>memallocs_initialized := True, num_allocs := 18446744073709551615\<rparr>, True) \<and>
   heap_records init_state = [] \<and> live_records init_state = {} \<and> num_allocs init_state = 0 \<and>
   memdebug_malloc init_state 1 26 ''main'' ''test.c'' 215296 0 = Inr (st_zero, 215296) \<and>
   alloc_remove st_zero 0 = (st_zero, False)"
proof -
  have a: "alloc_remove init_state 0 =
      (init_state\<lparr>memallocs_initialized := True, num_allocs := 18446744073709551615\<rparr>, True)"
    by (simp add: alloc_remove_def ensure_init_def memallocs_init_def Let_def ptr_hash_null
        init_state_def zero_alloc_def MAP_BUF_SIZE_def fun_upd_idem cong: if_cong)
  have b: "heap_records init_state = []"
    by (simp add: heap_records_def dump_bucket_def init_state_def zero_alloc_def)
  have c: "num_allocs init_state = 0" by (simp add: init_state_def)
  have h: "ptr_hash 215296 = 0" by (simp add: ptr_hash_eq)
  have d: "memdebug_malloc init_state 1 26 ''main'' ''test.c'' 215296 0 = Inr (st_zero, 215296)"
    by (simp add: memdebug_malloc_def mutex_lock_def mutex_unlock_def alloc_add_def
        ensure_init_def memallocs_init_def Let_def h init_state_def zero_alloc_def st_zero_def
        MAP_BUF_SIZE_def cong: if_cong)
  have e: "alloc_remove st_zero 0 = (st_zero, False)"
    by (simp add: alloc_remove_def ensure_init_def Let_def ptr_hash_null st_zero_def)
  from a b c d e live_records_init show ?thesis by simp
qed

subsection \<open>C8: one record per live address\<close>

text \<open>
  C8: in every state reached through the wrappers, the real allocator never
  returning an address that is live, no bucket holds an address twice and no
  address is held by two buckets. The lemmas \<open>malloc_inv\<close>, \<open>realloc_inv\<close>,
  \<open>free_inv\<close> and \<open>print_heap_inv\<close> are the preservation by each operation.
\<close>

theorem one_record_per_address: "reachable st \<Longrightarrow> no_duplicates st"
  using reachable_inv registry_inv_no_duplicates by blast

theorem one_record_per_address_witness: "reachable st_two \<and> no_duplicates st_two"
  using one_record_per_address[OF reachable_st_two] reachable_st_two by simp

subsection \<open>C9: a failed allocation inside the registry\<close>

text \<open>
  What a failed growth should do is what the array does when \<^verbatim>\<open>realloc\<close> fails
  to grow its block.
\<close>

lemma grow_out_of_memory_arr:
  assumes "allocs_cap st \<noteq> 0" "allocs_cap st \<le> num_allocs_arr st"
    and bound: "unat (num_allocs_arr st) \<le> length (allocs_arr st)"
  shows "alloc_push_arr st a 0 new_allocs_cap fresh =
           Inl (Exit_arr OOM_EXIT_STATUS
                  [GrowFailed_arr,
                   OomMessage_arr 153 ''memdebug.h'' (sizeof_MemAlloc_arr * new_allocs_cap),
                   HeapDump_arr (take (unat (num_allocs_arr st)) (allocs_arr st))
                     (foldr (\<lambda>m t. size_arr m + t) (take (unat (num_allocs_arr st)) (allocs_arr st)) 0)
                     (num_allocs_arr st)])"
  using assms(1,2) print_heap_loop_eq[OF bound, of 0]
  by (simp add: alloc_push_arr_def OOM_arr_def print_heap_arr_def)

text \<open>
  C9 says that when the registry has to grow and its own allocation returns
  null, the out-of-memory fault is raised and nothing is stored through the
  null result. \<open>alloc_add\<close> does not look at what \<^verbatim>\<open>malloc\<close> returns for a new
  chain node: with \<^verbatim>\<open>0x8\<close> live, registering \<^verbatim>\<open>0x17b08\<close>, which hashes to the same
  bucket, stores through the null node. Nor does \<open>alloc_push_arr\<close> look at
  what \<^verbatim>\<open>malloc\<close> returns for its first block.
\<close>

theorem chain_node_null_store:
  "memdebug_malloc st_one 2 27 ''main'' ''test.c'' 97032 0 = Inl NullStore \<and>
   memdebug_malloc_arr init_state_arr 1 26 ''test.c'' 8 0 cap fresh = Inl BadAccess"
proof -
  have "memdebug_malloc st_one 2 27 ''main'' ''test.c'' 97032 0 = Inl NullStore"
    by (simp add: memdebug_malloc_def mutex_lock_def alloc_add_def ensure_init_def
        Let_def ptr_hash_97032 st_one_def rec_one_def)
  with malloc_first_block_null_arr show ?thesis by simp
qed

subsection \<open>C10: the sentinel of the array lookup\<close>

text \<open>
  C10: in the array, with the count within the block, \<open>alloc_find_index\<close>
  returns the smallest index whose record has the address, or 4294967295 when
  there is none; so when the first record with a non-null address \<open>p\<close> is at
  index 4294967295, the lookup of \<open>p\<close> returns the sentinel, and release and
  resize of \<open>p\<close> end in the invalid-pointer fault.
\<close>

theorem sentinel_lookup:
  assumes bound: "unat (num_allocs_arr st) \<le> length (allocs_arr st)"
  shows "((\<exists>i. first_index st p i \<and> alloc_find_index st p = Inr (of_nat i)) \<or>
          (absent_arr st p \<and> alloc_find_index st p = Inr MEM_FAIL_TO_FIND)) \<and>
         (first_index st p 4294967295 \<and> p \<noteq> 0 \<and> \<not> alloc_mutex_arr st \<longrightarrow>
            alloc_find_index st p = Inr MEM_FAIL_TO_FIND \<and>
            memdebug_free_arr st p ln fl =
              Inl (Exit_arr MEMPANIC_EXIT_STATUS
                     [PanicMessage_arr ''Tried to free() an invalid pointer.'' p ln fl]) \<and>
            memdebug_realloc_arr st p n ln fl res =
              Inl (Exit_arr MEMPANIC_EXIT_STATUS
                     [PanicMessage_arr ''Tried to realloc() an invalid pointer.'' p ln fl]))"
proof -
  have one: "(\<exists>i. first_index st p i \<and> alloc_find_index st p = Inr (of_nat i)) \<or>
          (absent_arr st p \<and> alloc_find_index st p = Inr MEM_FAIL_TO_FIND)"
    using first_or_absent[of st p] alloc_find_index_first[OF bound] alloc_find_index_absent[OF bound]
    by blast
  have two: "alloc_find_index st p = Inr MEM_FAIL_TO_FIND \<and>
            memdebug_free_arr st p ln fl =
              Inl (Exit_arr MEMPANIC_EXIT_STATUS
                     [PanicMessage_arr ''Tried to free() an invalid pointer.'' p ln fl]) \<and>
            memdebug_realloc_arr st p n ln fl res =
              Inl (Exit_arr MEMPANIC_EXIT_STATUS
                     [PanicMessage_arr ''Tried to realloc() an invalid pointer.'' p ln fl])"
    if f: "first_index st p 4294967295" and nz: "p \<noteq> 0" and ul: "\<not> alloc_mutex_arr st"
  proof -
    let ?st1 = "st\<lparr>alloc_mutex_arr := True\<rparr>"
    have f1: "first_index ?st1 p 4294967295" using f by (simp add: first_index_def)
    have b1: "unat (num_allocs_arr ?st1) \<le> length (allocs_arr ?st1)" using bound by simp
    have "alloc_find_index st p = Inr (of_nat 4294967295)"
      by (rule alloc_find_index_first[OF bound f])
    then have a: "alloc_find_index st p = Inr MEM_FAIL_TO_FIND"
      by (simp add: MEM_FAIL_TO_FIND_def)
    have "alloc_find_index ?st1 p = Inr (of_nat 4294967295)"
      by (rule alloc_find_index_first[OF b1 f1])
    then have a1: "alloc_find_index ?st1 p = Inr MEM_FAIL_TO_FIND"
      by (simp add: MEM_FAIL_TO_FIND_def)
    from a a1 nz ul show ?thesis
      by (simp add: memdebug_free_arr_def memdebug_realloc_arr_def mutex_lock_arr_def mempanic_arr_def)
  qed
  from one two show ?thesis by blast
qed

theorem sentinel_lookup_witness:
  "unat (num_allocs_arr big_state) \<le> length (allocs_arr big_state) \<and>
   first_index big_state 68719476736 4294967295 \<and>
   (68719476736 :: ptr) \<noteq> 0 \<and> \<not> alloc_mutex_arr big_state \<and>
   alloc_find_index big_state 68719476736 = Inr MEM_FAIL_TO_FIND \<and>
   memdebug_free_arr big_state 68719476736 40 ''test.c'' =
     Inl (Exit_arr MEMPANIC_EXIT_STATUS
            [PanicMessage_arr ''Tried to free() an invalid pointer.'' 68719476736 40 ''test.c''])"
proof -
  have b: "unat (num_allocs_arr big_state) \<le> length (allocs_arr big_state)"
    by (simp add: big_state_def)
  have u: "\<not> alloc_mutex_arr big_state" by (simp add: big_state_def)
  from sentinel_lookup[OF b, of 68719476736 40 "''test.c''" 0 0] big_state_first u b
  show ?thesis by simp
qed

end
